theory Spec2Isabelle
  imports Main "HOL-Library.Word"
begin

unbundle bit_operations_syntax

section \<open>Common types\<close>

text \<open>
  \<^verbatim>\<open>uint8_t\<close> is an 8-bit word. A C buffer reached through a pointer is the list of
  the bytes it holds; an index outside the list is an access outside the object, which C
  leaves undefined and the model reports as \<open>None\<close>.
\<close>

type_synonym byte = "8 word"

definition INT_MAX :: int where
  "INT_MAX = 2147483647"

definition rd :: "byte list \<Rightarrow> nat \<Rightarrow> byte option" where
  "rd buf k = (if k < length buf then Some (buf ! k) else None)"

definition wr :: "byte list \<Rightarrow> nat \<Rightarrow> byte \<Rightarrow> byte list option" where
  "wr buf k v = (if k < length buf then Some (buf[k := v]) else None)"

section \<open>convert.c: BGRA to planar YUV 4:2:0\<close>

text \<open>
  The three integer expressions of the loop body. The operands are \<^verbatim>\<open>uint8_t\<close>
  promoted to \<^verbatim>\<open>int\<close>; the largest magnitude is \<open>220 * 255 + 128\<close>, so nothing
  overflows. \<^verbatim>\<open>>> 8\<close> on a negative \<^verbatim>\<open>int\<close> is the arithmetic shift of every
  compiler the program is built with, which is \<open>drop_bit\<close> on \<open>int\<close> (rounding
  towards minus infinity).
\<close>

definition calc_y :: "byte \<Rightarrow> byte \<Rightarrow> byte \<Rightarrow> int" where
  "calc_y r g b = drop_bit 8 (66 * uint r + 129 * uint g + 25 * uint b + 128) + 16"

definition calc_u :: "byte \<Rightarrow> byte \<Rightarrow> byte \<Rightarrow> int" where
  "calc_u r g b = drop_bit 8 (- 38 * uint r - 74 * uint g + 112 * uint b + 128) + 128"

definition calc_v :: "byte \<Rightarrow> byte \<Rightarrow> byte \<Rightarrow> int" where
  "calc_v r g b = drop_bit 8 (112 * uint r - 94 * uint g - 18 * uint b + 128) + 128"

text \<open>\<^verbatim>\<open>(uint8_t)(y < 0 ? 0 : (y > 255 ? 255 : y))\<close>\<close>

definition sat_u8 :: "int \<Rightarrow> byte" where
  "sat_u8 y = word_of_int (if y < 0 then 0 else (if y > 255 then 255 else y))"

text \<open>
  The body of the inner loop at row \<open>j\<close> and column \<open>i\<close>. \<open>y_plane\<close> is offset 0 of
  \<open>dst\<close>, \<open>u_plane\<close> is offset \<open>width * height\<close> and \<open>v_plane\<close> is
  \<open>half_w * half_h\<close> further. The index \<open>(j * width + i) * 4\<close> is an \<^verbatim>\<open>int\<close>: beyond
  \<open>INT_MAX\<close> the signed overflow is undefined (\<open>None\<close>).
\<close>

definition px_body :: "nat \<Rightarrow> nat \<Rightarrow> byte list \<Rightarrow> nat \<Rightarrow> nat \<Rightarrow> byte list \<Rightarrow> byte list option" where
  "px_body width height src j i dst =
    (let half_w = width div 2;
         half_h = height div 2;
         u_plane = width * height;
         v_plane = u_plane + half_w * half_h;
         idx = (j * width + i) * 4
     in if INT_MAX < int idx then None
        else
          (case (rd src (idx + 0), rd src (idx + 1), rd src (idx + 2)) of
             (Some b, Some g, Some r) \<Rightarrow>
               (case wr dst (j * width + i) (sat_u8 (calc_y r g b)) of
                  None \<Rightarrow> None
                | Some dst1 \<Rightarrow>
                    if j AND 1 = 0 \<and> i AND 1 = 0 then
                      (let ci = (j div 2) * half_w + (i div 2) in
                       case wr dst1 (u_plane + ci) (sat_u8 (calc_u r g b)) of
                         None \<Rightarrow> None
                       | Some dst2 \<Rightarrow> wr dst2 (v_plane + ci) (sat_u8 (calc_v r g b)))
                    else Some dst1)
           | _ \<Rightarrow> None))"

text \<open>\<^verbatim>\<open>for (int i = 0; i < width; i++)\<close>, entered at \<open>i\<close>.\<close>

function cols :: "nat \<Rightarrow> nat \<Rightarrow> byte list \<Rightarrow> nat \<Rightarrow> nat \<Rightarrow> byte list \<Rightarrow> byte list option" where
  "cols width height src j i dst =
    (if i < width then
       (case px_body width height src j i dst of
          None \<Rightarrow> None
        | Some dst' \<Rightarrow> cols width height src j (i + 1) dst')
     else Some dst)"
  by pat_completeness auto
termination
  by (relation "measure (\<lambda>(width, height, src, j, i, dst). width - i)") auto

text \<open>\<^verbatim>\<open>for (int j = 0; j < height; j++)\<close>, entered at \<open>j\<close>.\<close>

function rows :: "nat \<Rightarrow> nat \<Rightarrow> byte list \<Rightarrow> nat \<Rightarrow> byte list \<Rightarrow> byte list option" where
  "rows width height src j dst =
    (if j < height then
       (case cols width height src j 0 dst of
          None \<Rightarrow> None
        | Some dst' \<Rightarrow> rows width height src (j + 1) dst')
     else Some dst)"
  by pat_completeness auto
termination
  by (relation "measure (\<lambda>(width, height, src, j, dst). height - j)") auto

text \<open>
  \<^verbatim>\<open>void bgra_to_yuv420p(const uint8_t *src, uint8_t *dst, int width, int height)\<close>.
  The result is the content of \<open>dst\<close> after the call. \<open>width * height\<close> is computed in
  \<^verbatim>\<open>int\<close> for \<open>u_plane\<close> (outside the range of \<^verbatim>\<open>int\<close> the overflow is undefined);
  a dimension that is not positive runs no loop body.
\<close>

definition bgra_to_yuv420p :: "byte list \<Rightarrow> byte list \<Rightarrow> int \<Rightarrow> int \<Rightarrow> byte list option" where
  "bgra_to_yuv420p src dst width height =
    (if width * height < - INT_MAX - 1 \<or> INT_MAX < width * height then None
     else rows (nat width) (nat height) src 0 dst)"

declare cols.simps [simp del] rows.simps [simp del]

section \<open>Reading the converter's input and output\<close>

text \<open>
  The channels of the pixel in row \<open>j\<close> and column \<open>i\<close> of a BGRA buffer, at the
  offsets the loop body reads them (\<open>idx + 0\<close>, \<open>idx + 1\<close>, \<open>idx + 2\<close>), and the
  bytes the body stores for that pixel.
\<close>

definition px_B :: "byte list \<Rightarrow> nat \<Rightarrow> nat \<Rightarrow> nat \<Rightarrow> byte" where
  "px_B src width j i = src ! ((j * width + i) * 4)"

definition px_G :: "byte list \<Rightarrow> nat \<Rightarrow> nat \<Rightarrow> nat \<Rightarrow> byte" where
  "px_G src width j i = src ! ((j * width + i) * 4 + 1)"

definition px_R :: "byte list \<Rightarrow> nat \<Rightarrow> nat \<Rightarrow> nat \<Rightarrow> byte" where
  "px_R src width j i = src ! ((j * width + i) * 4 + 2)"

definition y_at :: "byte list \<Rightarrow> nat \<Rightarrow> nat \<Rightarrow> nat \<Rightarrow> byte" where
  "y_at src width j i =
     sat_u8 (calc_y (px_R src width j i) (px_G src width j i) (px_B src width j i))"

definition u_at :: "byte list \<Rightarrow> nat \<Rightarrow> nat \<Rightarrow> nat \<Rightarrow> byte" where
  "u_at src width j i =
     sat_u8 (calc_u (px_R src width j i) (px_G src width j i) (px_B src width j i))"

definition v_at :: "byte list \<Rightarrow> nat \<Rightarrow> nat \<Rightarrow> nat \<Rightarrow> byte" where
  "v_at src width j i =
     sat_u8 (calc_v (px_R src width j i) (px_G src width j i) (px_B src width j i))"

text \<open>
  The three planes as lists: entry \<open>k\<close> of the luma plane belongs to the pixel in row
  \<open>k div w\<close> and column \<open>k mod w\<close> (row-major); entry \<open>c\<close> of a chroma plane belongs
  to the 2x2 block in block row \<open>c div (w div 2)\<close> and block column
  \<open>c mod (w div 2)\<close>, and is taken from the top-left pixel of that block.
\<close>

definition luma_plane :: "byte list \<Rightarrow> nat \<Rightarrow> nat \<Rightarrow> byte list" where
  "luma_plane src w h = map (\<lambda>k. y_at src w (k div w) (k mod w)) [0..<w * h]"

definition cb_plane :: "byte list \<Rightarrow> nat \<Rightarrow> nat \<Rightarrow> byte list" where
  "cb_plane src w h =
     map (\<lambda>c. u_at src w (2 * (c div (w div 2))) (2 * (c mod (w div 2)))) [0..<(w div 2) * (h div 2)]"

definition cr_plane :: "byte list \<Rightarrow> nat \<Rightarrow> nat \<Rightarrow> byte list" where
  "cr_plane src w h =
     map (\<lambda>c. v_at src w (2 * (c div (w div 2))) (2 * (c mod (w div 2)))) [0..<(w div 2) * (h div 2)]"

text \<open>
  The reference conversion, as the specification words it: the three formulas on the
  integer channel values, with \<open>clamp(x, 0, 255)\<close> and the shift as a division by
  \<open>2 ^ 8\<close> rounding down.
\<close>

definition clamp :: "int \<Rightarrow> int \<Rightarrow> int \<Rightarrow> int" where
  "clamp x lo hi = max lo (min x hi)"

definition ref_Y :: "int \<Rightarrow> int \<Rightarrow> int \<Rightarrow> int" where
  "ref_Y R G B = clamp ((66 * R + 129 * G + 25 * B + 128) div 2 ^ 8 + 16) 0 255"

definition ref_U :: "int \<Rightarrow> int \<Rightarrow> int \<Rightarrow> int" where
  "ref_U R G B = clamp ((- 38 * R - 74 * G + 112 * B + 128) div 2 ^ 8 + 128) 0 255"

definition ref_V :: "int \<Rightarrow> int \<Rightarrow> int \<Rightarrow> int" where
  "ref_V R G B = clamp ((112 * R - 94 * G - 18 * B + 128) div 2 ^ 8 + 128) 0 255"

text \<open>
  The state of \<open>dst\<close> when the loops stand at row \<open>j\<close> and column \<open>i\<close>: every pixel
  before that position has its luma byte, every 2x2 block whose top-left pixel lies before
  it has its two chroma bytes, and the bytes behind the three planes are those of the
  buffer \<open>d0\<close> the call started with.
\<close>

definition conv_inv :: "nat \<Rightarrow> nat \<Rightarrow> byte list \<Rightarrow> byte list \<Rightarrow> nat \<Rightarrow> nat \<Rightarrow> byte list \<Rightarrow> bool" where
  "conv_inv w h src d0 j i d \<longleftrightarrow>
     length d = length d0 \<and>
     (\<forall>j' i'. i' < w \<and> (j' < j \<or> j' = j \<and> i' < i) \<longrightarrow> d ! (j' * w + i') = y_at src w j' i') \<and>
     (\<forall>cj ci. ci < w div 2 \<and> (2 * cj < j \<or> 2 * cj = j \<and> 2 * ci < i) \<longrightarrow>
        d ! (w * h + cj * (w div 2) + ci) = u_at src w (2 * cj) (2 * ci) \<and>
        d ! (w * h + (w div 2) * (h div 2) + cj * (w div 2) + ci) = v_at src w (2 * cj) (2 * ci)) \<and>
     (\<forall>k. w * h + 2 * ((w div 2) * (h div 2)) \<le> k \<longrightarrow> d ! k = d0 ! k)"

text \<open>The two test frames of 2x2 pixels: all white and all black, alpha 255.\<close>

definition white_2x2 :: "byte list" where
  "white_2x2 = [255, 255, 255, 255,  255, 255, 255, 255,  255, 255, 255, 255,  255, 255, 255, 255]"

definition black_2x2 :: "byte list" where
  "black_2x2 = [0, 0, 0, 255,  0, 0, 0, 255,  0, 0, 0, 255,  0, 0, 0, 255]"

text \<open>A 2x2 frame with four different pixels, and the same frame with other alpha bytes.\<close>

definition sample_2x2 :: "byte list" where
  "sample_2x2 = [10, 20, 30, 255,  200, 100, 50, 255,  0, 255, 0, 255,  255, 0, 255, 255]"

definition sample_2x2_alpha :: "byte list" where
  "sample_2x2_alpha = [10, 20, 30, 0,  200, 100, 50, 1,  0, 255, 0, 2,  255, 0, 255, 3]"

section \<open>vcam.c and vcam_win.c: the frame sinks\<close>

text \<open>
  \<^verbatim>\<open>size_t\<close> is 64 bits wide on the targets of both files; its values are natural
  numbers and the wrap-around is written out where the code multiplies. A conversion
  from \<^verbatim>\<open>int\<close> reduces modulo \<open>2 ^ 64\<close>.
\<close>

definition size_t_of_int :: "int \<Rightarrow> nat" where
  "size_t_of_int x = nat (x mod 2 ^ 64)"

text \<open>\<^verbatim>\<open>(size_t)width * height * 3 / 2\<close>\<close>

definition frame_size_of :: "int \<Rightarrow> int \<Rightarrow> nat" where
  "frame_size_of width height =
     (((size_t_of_int width * size_t_of_int height) mod 2 ^ 64) * 3) mod 2 ^ 64 div 2"

text \<open>
  One call of \<^verbatim>\<open>write\<close> (\<^verbatim>\<open>_write\<close>) as the descriptor answers it: \<open>Wrote k\<close>
  when it takes up to \<open>k\<close> bytes, so that the call returns \<open>min k count\<close>, and
  \<open>Failed e\<close> when the call returns \<open>-1\<close> with \<^verbatim>\<open>errno\<close> \<open>e\<close>. A list of such
  answers is what the descriptor does with the calls to come; the bytes that have reached
  the descriptor are the list \<open>out\<close>.
\<close>

datatype write_res = Wrote nat | Failed int

text \<open>The \<^verbatim>\<open>errno\<close> value of an interrupted call, as \<^verbatim>\<open>errno.h\<close> has it on both targets.\<close>

definition EINTR :: int where
  "EINTR = 4"

text \<open>\<^verbatim>\<open>struct vcam_ctx\<close> of vcam.c\<close>

record vcam_ctx =
  vc_fd :: int
  vc_width :: int
  vc_height :: int
  vc_frame_size :: nat

text \<open>
  \<^verbatim>\<open>vcam_open\<close> of vcam.c. \<open>calloc_ok\<close> tells whether \<^verbatim>\<open>calloc\<close> gave memory,
  \<open>open_ret\<close> and \<open>ioctl_ret\<close> are what \<^verbatim>\<open>open\<close> and
  \<^verbatim>\<open>ioctl(VIDIOC_S_FMT)\<close> return; \<open>None\<close> is the \<^verbatim>\<open>NULL\<close> result.
\<close>

definition vcam_open :: "bool \<Rightarrow> int \<Rightarrow> int \<Rightarrow> string \<Rightarrow> int \<Rightarrow> int \<Rightarrow> vcam_ctx option" where
  "vcam_open calloc_ok open_ret ioctl_ret device width height =
     (if \<not> calloc_ok then None
      else if open_ret < 0 then None
      else if ioctl_ret < 0 then None
      else Some \<lparr>vc_fd = open_ret, vc_width = width, vc_height = height,
                 vc_frame_size = frame_size_of width height\<rparr>)"

text \<open>
  The \<^verbatim>\<open>while (written < ctx->frame_size)\<close> loop of \<^verbatim>\<open>vcam_write\<close>, entered with
  \<open>written\<close> bytes done. The result is the return value (\<open>None\<close> while the call is
  still waiting in \<^verbatim>\<open>write\<close>, the answers being used up), the bytes at the descriptor
  and the answers not yet used. The buffer is read at \<open>yuv420p + written\<close>; the caller
  owes \<open>len\<close> readable bytes.
\<close>

fun write_loop :: "nat \<Rightarrow> byte list \<Rightarrow> nat \<Rightarrow> write_res list \<Rightarrow> byte list \<Rightarrow>
    int option \<times> byte list \<times> write_res list" where
  "write_loop frame_size yuv420p written tr out =
     (if written < frame_size then
        (case tr of
           [] \<Rightarrow> (None, out, [])
         | Failed e # tr' \<Rightarrow>
             if e = EINTR then write_loop frame_size yuv420p written tr' out
             else (Some (- 1), out, tr')
         | Wrote k # tr' \<Rightarrow>
             (let n = min k (frame_size - written)
              in write_loop frame_size yuv420p (written + n) tr'
                   (out @ take n (drop written yuv420p))))
      else (Some 0, out, tr))"

text \<open>\<^verbatim>\<open>int vcam_write(vcam_ctx_t *ctx, const uint8_t *yuv420p, size_t len)\<close> of vcam.c\<close>

definition vcam_write :: "vcam_ctx \<Rightarrow> byte list \<Rightarrow> nat \<Rightarrow> write_res list \<Rightarrow> byte list \<Rightarrow>
    int option \<times> byte list \<times> write_res list" where
  "vcam_write ctx yuv420p len tr out =
     (if len < vc_frame_size ctx then (Some (- 1), out, tr)
      else write_loop (vc_frame_size ctx) yuv420p 0 tr out)"

text \<open>\<^verbatim>\<open>struct vcam_ctx\<close> and \<^verbatim>\<open>vcam_open\<close> of vcam_win.c\<close>

record vcam_win_ctx =
  vw_fd :: int
  vw_is_stdout :: int
  vw_width :: int
  vw_height :: int
  vw_frame_size :: nat

definition vcam_open_win :: "bool \<Rightarrow> int \<Rightarrow> int \<Rightarrow> int \<Rightarrow> string \<Rightarrow> int \<Rightarrow> int \<Rightarrow> vcam_win_ctx option" where
  "vcam_open_win calloc_ok stdout_fd setmode_ret open_ret device width height =
     (if \<not> calloc_ok then None
      else if device = ''-'' then
        (if setmode_ret = - 1 then None
         else Some \<lparr>vw_fd = stdout_fd, vw_is_stdout = 1, vw_width = width, vw_height = height,
                    vw_frame_size = frame_size_of width height\<rparr>)
      else
        (if open_ret < 0 then None
         else Some \<lparr>vw_fd = open_ret, vw_is_stdout = 0, vw_width = width, vw_height = height,
                    vw_frame_size = frame_size_of width height\<rparr>))"

text \<open>
  The loop of vcam_win.c: the count passed to \<^verbatim>\<open>_write\<close> is
  \<^verbatim>\<open>(unsigned int)(ctx->frame_size - written)\<close>, the remainder modulo \<open>2 ^ 32\<close>, and
  the result is an \<^verbatim>\<open>int\<close>, taken to hold the count of bytes written.
\<close>

fun write_loop_win :: "nat \<Rightarrow> byte list \<Rightarrow> nat \<Rightarrow> write_res list \<Rightarrow> byte list \<Rightarrow>
    int option \<times> byte list \<times> write_res list" where
  "write_loop_win frame_size yuv420p written tr out =
     (if written < frame_size then
        (case tr of
           [] \<Rightarrow> (None, out, [])
         | Failed e # tr' \<Rightarrow>
             if e = EINTR then write_loop_win frame_size yuv420p written tr' out
             else (Some (- 1), out, tr')
         | Wrote k # tr' \<Rightarrow>
             (let n = min k ((frame_size - written) mod 2 ^ 32)
              in write_loop_win frame_size yuv420p (written + n) tr'
                   (out @ take n (drop written yuv420p))))
      else (Some 0, out, tr))"

definition vcam_write_win :: "vcam_win_ctx \<Rightarrow> byte list \<Rightarrow> nat \<Rightarrow> write_res list \<Rightarrow> byte list \<Rightarrow>
    int option \<times> byte list \<times> write_res list" where
  "vcam_write_win ctx yuv420p len tr out =
     (if len < vw_frame_size ctx then (Some (- 1), out, tr)
      else write_loop_win (vw_frame_size ctx) yuv420p 0 tr out)"

declare write_loop.simps [simp del] write_loop_win.simps [simp del]

text \<open>A sink of 2x2 pixels on each platform, a frame for it and a buffer one byte longer.\<close>

definition frame_123456 :: "byte list" where
  "frame_123456 = [1, 2, 3, 4, 5, 6]"

definition long_1234567 :: "byte list" where
  "long_1234567 = [1, 2, 3, 4, 5, 6, 7]"

definition cam_2x2 :: vcam_ctx where
  "cam_2x2 = \<lparr>vc_fd = 3, vc_width = 2, vc_height = 2, vc_frame_size = 6\<rparr>"

definition cam_win_2x2 :: vcam_win_ctx where
  "cam_win_2x2 = \<lparr>vw_fd = 1, vw_is_stdout = 1, vw_width = 2, vw_height = 2, vw_frame_size = 6\<rparr>"

section \<open>capture_win.c: DXGI desktop duplication\<close>

text \<open>
  Modelled from the spec: the \<^verbatim>\<open>HRESULT\<close> codes come from the Windows SDK headers, which
  are not part of the repository. The specification tells three outcomes of the frame
  acquisition apart (timeout, access lost, success); the codes below are the SDK's values
  as 32-bit signed integers, and \<^verbatim>\<open>FAILED(hr)\<close> is \<open>hr < 0\<close>.
\<close>

definition S_FALSE :: int where
  "S_FALSE = 1"

definition RPC_E_CHANGED_MODE :: int where
  "RPC_E_CHANGED_MODE = - 2147417850"

definition DXGI_ERROR_WAIT_TIMEOUT :: int where
  "DXGI_ERROR_WAIT_TIMEOUT = - 2005270489"

definition DXGI_ERROR_ACCESS_LOST :: int where
  "DXGI_ERROR_ACCESS_LOST = - 2005270490"

definition E_ACCESSDENIED :: int where
  "E_ACCESSDENIED = - 2147024891"

definition FAILED :: "int \<Rightarrow> bool" where
  "FAILED hr = (hr < 0)"

text \<open>
  \<^verbatim>\<open>struct capture_ctx\<close>: the dimensions, the persistent BGRA buffer (its content) and
  its size. The four COM handles carry no data of their own and are left out.
\<close>

record capture_ctx =
  cw_width :: int
  cw_height :: int
  cw_buffer :: "byte list"
  cw_buffer_size :: nat

text \<open>
  What \<^verbatim>\<open>capture_init\<close> meets: the result of each call it makes, the desktop
  rectangle, and for \<^verbatim>\<open>malloc\<close> whether it gave a block and the byte the block happens
  to hold at each offset (\<^verbatim>\<open>malloc\<close> does not clear it).
\<close>

record init_env =
  ie_CoInitializeEx :: int
  ie_calloc_ok :: bool
  ie_D3D11CreateDevice :: int
  ie_QueryInterface_IDXGIDevice :: int
  ie_GetAdapter :: int
  ie_EnumOutputs :: int
  ie_left :: int
  ie_right :: int
  ie_top :: int
  ie_bottom :: int
  ie_QueryInterface_IDXGIOutput1 :: int
  ie_DuplicateOutput :: int
  ie_CreateTexture2D :: int
  ie_malloc_ok :: bool
  ie_heap :: "nat \<Rightarrow> byte"

text \<open>\<^verbatim>\<open>malloc(n)\<close>: a block of \<open>n\<close> bytes holding what the heap held.\<close>

definition malloc_block :: "(nat \<Rightarrow> byte) \<Rightarrow> nat \<Rightarrow> byte list" where
  "malloc_block heap n = map heap [0..<n]"

text \<open>
  \<^verbatim>\<open>capture_init\<close>; \<open>None\<close> is the \<^verbatim>\<open>NULL\<close> result (directly or through
  \<^verbatim>\<open>goto fail\<close>). \<open>buffer_size\<close> is \<^verbatim>\<open>(size_t)ctx->width * ctx->height * 4\<close>.
\<close>

definition capture_init :: "init_env \<Rightarrow> capture_ctx option" where
  "capture_init env =
    (if FAILED (ie_CoInitializeEx env) \<and> ie_CoInitializeEx env \<noteq> S_FALSE \<and>
        ie_CoInitializeEx env \<noteq> RPC_E_CHANGED_MODE then None
     else if \<not> ie_calloc_ok env then None
     else if FAILED (ie_D3D11CreateDevice env) then None
     else if FAILED (ie_QueryInterface_IDXGIDevice env) then None
     else if FAILED (ie_GetAdapter env) then None
     else if FAILED (ie_EnumOutputs env) then None
     else
       (let width = ie_right env - ie_left env;
            height = ie_bottom env - ie_top env
        in if FAILED (ie_QueryInterface_IDXGIOutput1 env) then None
           else if FAILED (ie_DuplicateOutput env) then None
           else if FAILED (ie_CreateTexture2D env) then None
           else
             (let buffer_size =
                    (((size_t_of_int width * size_t_of_int height) mod 2 ^ 64) * 4) mod 2 ^ 64
              in if \<not> ie_malloc_ok env then None
                 else Some \<lparr>cw_width = width, cw_height = height,
                            cw_buffer = malloc_block (ie_heap env) buffer_size,
                            cw_buffer_size = buffer_size\<rparr>)))"

definition capture_width :: "capture_ctx \<Rightarrow> int" where
  "capture_width ctx = cw_width ctx"

definition capture_height :: "capture_ctx \<Rightarrow> int" where
  "capture_height ctx = cw_height ctx"

text \<open>
  What one \<^verbatim>\<open>capture_grab\<close> meets: the results of \<^verbatim>\<open>AcquireNextFrame\<close>,
  \<^verbatim>\<open>QueryInterface\<close> and \<^verbatim>\<open>Map\<close>, and the mapped staging texture (its row pitch
  and its bytes).
\<close>

record grab_env =
  ge_AcquireNextFrame :: int
  ge_QueryInterface :: int
  ge_Map :: int
  ge_RowPitch :: nat
  ge_pData :: "byte list"

text \<open>
  \<^verbatim>\<open>memcpy(dst + doff, src + soff, n)\<close> on the content of \<open>dst\<close>. Direct3D maps
  \<open>RowPitch * height\<close> bytes; a source byte outside the mapping is not specified.
\<close>

definition memcpy :: "byte list \<Rightarrow> nat \<Rightarrow> byte list \<Rightarrow> nat \<Rightarrow> nat \<Rightarrow> byte list" where
  "memcpy dst doff src soff n =
     map (\<lambda>k. if doff \<le> k \<and> k < doff + n then src ! (soff + (k - doff)) else dst ! k)
       [0..<length dst]"

text \<open>
  \<^verbatim>\<open>for (int y = 0; y < ctx->height; y++)\<close>, entered at \<open>y\<close>. The offset
  \<open>y * dest_stride\<close> is a \<^verbatim>\<open>size_t\<close>, \<open>y * mapped.RowPitch\<close> an \<^verbatim>\<open>unsigned int\<close>.
\<close>

function copy_rows :: "nat \<Rightarrow> nat \<Rightarrow> nat \<Rightarrow> byte list \<Rightarrow> nat \<Rightarrow> byte list \<Rightarrow> byte list" where
  "copy_rows height dest_stride row_pitch pData y buffer =
     (if y < height then
        copy_rows height dest_stride row_pitch pData (y + 1)
          (memcpy buffer ((y * dest_stride) mod 2 ^ 64) pData ((y * row_pitch) mod 2 ^ 32)
             dest_stride)
      else buffer)"
  by pat_completeness auto
termination
  by (relation "measure (\<lambda>(height, dest_stride, row_pitch, pData, y, buffer). height - y)") auto

declare copy_rows.simps [simp del]

text \<open>
  \<^verbatim>\<open>capture_grab\<close>: the returned pointer (\<open>None\<close> for \<^verbatim>\<open>NULL\<close>, otherwise the bytes
  it points to), the context after the call and the lines written to \<^verbatim>\<open>stderr\<close>.
\<close>

definition capture_grab :: "capture_ctx \<Rightarrow> grab_env \<Rightarrow> byte list option \<times> capture_ctx \<times> string list" where
  "capture_grab ctx env =
    (let hr = ge_AcquireNextFrame env in
     if hr = DXGI_ERROR_WAIT_TIMEOUT then (Some (cw_buffer ctx), ctx, [])
     else if hr = DXGI_ERROR_ACCESS_LOST then
       (None, ctx, [''capture_win: access lost (desktop mode change?)''])
     else if FAILED hr then (None, ctx, [''capture_win: AcquireNextFrame failed''])
     else if FAILED (ge_QueryInterface env) then
       (None, ctx, [''capture_win: QueryInterface(ID3D11Texture2D) failed''])
     else if FAILED (ge_Map env) then (None, ctx, [''capture_win: Map(staging) failed''])
     else
       (let dest_stride = (size_t_of_int (cw_width ctx) * 4) mod 2 ^ 64;
            buffer' =
              (if ge_RowPitch env = dest_stride
               then memcpy (cw_buffer ctx) 0 (ge_pData env) 0
                      ((dest_stride * size_t_of_int (cw_height ctx)) mod 2 ^ 64)
               else copy_rows (nat (cw_height ctx)) dest_stride (ge_RowPitch env) (ge_pData env) 0
                      (cw_buffer ctx));
            ctx' = ctx\<lparr>cw_buffer := buffer'\<rparr>
        in (Some (cw_buffer ctx'), ctx', [])))"

text \<open>Successive calls of \<^verbatim>\<open>capture_grab\<close> on one session: the pointer each call returns.\<close>

fun grab_all :: "capture_ctx \<Rightarrow> grab_env list \<Rightarrow> byte list option list" where
  "grab_all ctx [] = []"
| "grab_all ctx (env # envs) =
     (case capture_grab ctx env of (p, ctx', errs) \<Rightarrow> p # grab_all ctx' envs)"

section \<open>capture.c: X11\<close>

text \<open>
  \<^verbatim>\<open>struct capture_ctx\<close> of capture.c: the dimensions, whether MIT-SHM is in use and the
  data of the current image (\<open>None\<close> when \<open>img\<close> is \<^verbatim>\<open>NULL\<close>). A grab meets the pixels
  the server stores in the shared image, or what \<^verbatim>\<open>XGetImage\<close> returns.
\<close>

record x11_ctx =
  x_width :: int
  x_height :: int
  x_use_shm :: bool
  x_img :: "byte list option"

record x11_grab_env =
  xe_XShmGetImage :: "byte list"
  xe_XGetImage :: "byte list option"

definition capture_grab_x11 :: "x11_ctx \<Rightarrow> x11_grab_env \<Rightarrow> byte list option \<times> x11_ctx \<times> string list" where
  "capture_grab_x11 ctx env =
    (if x_use_shm ctx then
       (Some (xe_XShmGetImage env), ctx\<lparr>x_img := Some (xe_XShmGetImage env)\<rparr>, [])
     else
       (case xe_XGetImage env of
          None \<Rightarrow> (None, ctx\<lparr>x_img := None\<rparr>, [])
        | Some d \<Rightarrow> (Some d, ctx\<lparr>x_img := Some d\<rparr>, [])))"

section \<open>main.c: start-up and the pacing loop\<close>

text \<open>
  What the program does to the outside, in order: lines on \<^verbatim>\<open>stderr\<close> (the lines with
  numbers as constructors of their own), the sleeps, and the calls into the capture source
  and the sink.
\<close>

datatype event =
    Stderr string
  | Banner int int int string
  | Progress nat
  | Stopping nat
  | Usleep nat
  | Nanosleep int int
  | CaptureInit
  | CaptureGrab
  | CaptureFree
  | VcamOpen string int int
  | VcamWrite
  | VcamClose

record timespec =
  tv_sec :: int
  tv_nsec :: int

text \<open>
  The target the program is built for: the width of \<^verbatim>\<open>long\<close> in bits, and the capture
  source and the sink the program is linked with: \<^verbatim>\<open>capture_init()\<close> with what it
  returns in this run, the accessors, \<^verbatim>\<open>capture_grab\<close>, \<^verbatim>\<open>vcam_open\<close> and
  \<^verbatim>\<open>vcam_write\<close>.
\<close>

record ('c, 'g, 'v) platform =
  p_long_bits :: nat
  p_capture_init :: "'c option"
  p_capture_width :: "'c \<Rightarrow> int"
  p_capture_height :: "'c \<Rightarrow> int"
  p_capture_grab :: "'c \<Rightarrow> 'g \<Rightarrow> byte list option \<times> 'c \<times> string list"
  p_vcam_open :: "string \<Rightarrow> int \<Rightarrow> int \<Rightarrow> 'v option"
  p_vcam_write :: "'v \<Rightarrow> byte list \<Rightarrow> nat \<Rightarrow> write_res list \<Rightarrow> byte list \<Rightarrow>
    int option \<times> byte list \<times> write_res list"

text \<open>
  What one pass of the loop meets: the value of \<open>running\<close> read at the loop head, the two
  readings of the monotonic clock, what the capture source meets and how the descriptor
  answers the writes of this pass.
\<close>

record 'g iter_env =
  it_running :: int
  it_t0 :: timespec
  it_grab :: 'g
  it_write :: "write_res list"
  it_t1 :: timespec

text \<open>The variables of \<^verbatim>\<open>main\<close> that change in the loop, and the events so far.\<close>

record 'c loop_state =
  ls_cap :: 'c
  ls_frames :: nat
  ls_yuv_buf :: "byte list"
  ls_out :: "byte list"
  ls_log :: "event list"

text \<open>
  How a run of the loop over finitely many passes ends: \<open>running\<close> was 0 at the loop
  head; \<^verbatim>\<open>vcam_write\<close> returned a negative value (\<^verbatim>\<open>break\<close>); the passes are used up and
  the loop is still running; a \<^verbatim>\<open>vcam_write\<close> is still waiting in \<^verbatim>\<open>write\<close>; or the
  conversion left the buffers.
\<close>

datatype loop_end = Stopped | WriteError | StillRunning | Blocked | Undefined

text \<open>
  \<^verbatim>\<open>long\<close> arithmetic. The C standard leaves signed overflow undefined and the
  conversion of a wider value to \<^verbatim>\<open>long\<close> to the implementation; the compilers of the
  targets keep the low \<open>bits\<close> bits in two's complement, which \<open>to_long\<close> does.
  \<open>in_long\<close> tells whether a value fits as it is.
\<close>

definition to_long :: "nat \<Rightarrow> int \<Rightarrow> int" where
  "to_long bits x = (x + 2 ^ (bits - 1)) mod 2 ^ bits - 2 ^ (bits - 1)"

definition in_long :: "nat \<Rightarrow> int \<Rightarrow> bool" where
  "in_long bits x = (- (2 ^ (bits - 1)) \<le> x \<and> x < 2 ^ (bits - 1))"

text \<open>The time between two readings of the clock, in nanoseconds.\<close>

definition clock_diff_ns :: "timespec \<Rightarrow> timespec \<Rightarrow> int" where
  "clock_diff_ns t0 t1 = (tv_sec t1 - tv_sec t0) * 1000000000 + (tv_nsec t1 - tv_nsec t0)"

text \<open>
  \<^verbatim>\<open>long elapsed = (t1.tv_sec - t0.tv_sec) * 1000000000L + (t1.tv_nsec - t0.tv_nsec)\<close>,
  each operation in \<^verbatim>\<open>long\<close>.
\<close>

definition elapsed_ns :: "nat \<Rightarrow> timespec \<Rightarrow> timespec \<Rightarrow> int" where
  "elapsed_ns bits t0 t1 =
     to_long bits
       (to_long bits (to_long bits (tv_sec t1 - tv_sec t0) * 1000000000) +
        to_long bits (tv_nsec t1 - tv_nsec t0))"

text \<open>
  The end of a pass: \<^verbatim>\<open>long remaining = frame_ns - elapsed\<close>, and \<^verbatim>\<open>nanosleep\<close> with
  \<open>tv_sec = 0\<close>, \<open>tv_nsec = remaining\<close> only if \<open>remaining > 0\<close>.
\<close>

definition pace :: "nat \<Rightarrow> int \<Rightarrow> timespec \<Rightarrow> timespec \<Rightarrow> event list" where
  "pace bits frame_ns t0 t1 =
     (let elapsed = elapsed_ns bits t0 t1;
          remaining = to_long bits (frame_ns - elapsed)
      in if remaining > 0 then [Nanosleep 0 remaining] else [])"

text \<open>
  One pass of the body of \<^verbatim>\<open>while (running)\<close>, \<open>running\<close> having been read as non-zero:
  \<open>None\<close> when the loop goes on (after \<^verbatim>\<open>continue\<close> or at the end of the body),
  otherwise how the loop ends.
\<close>

definition loop_body :: "('c, 'g, 'v) platform \<Rightarrow> 'v \<Rightarrow> int \<Rightarrow> int \<Rightarrow> nat \<Rightarrow> int \<Rightarrow> int \<Rightarrow>
    'g iter_env \<Rightarrow> 'c loop_state \<Rightarrow> loop_end option \<times> 'c loop_state" where
  "loop_body P cam w h yuv_size fps frame_ns it st =
    (case p_capture_grab P (ls_cap st) (it_grab it) of
       (bgra, cap', errs) \<Rightarrow>
         (let st1 = st\<lparr>ls_cap := cap', ls_log := ls_log st @ [CaptureGrab] @ map Stderr errs\<rparr>
          in case bgra of
               None \<Rightarrow>
                 (None, st1\<lparr>ls_log := ls_log st1 @
                    [Stderr ''screen2cam: capture failed, retrying...'', Usleep 100000]\<rparr>)
             | Some frame \<Rightarrow>
                 (case bgra_to_yuv420p frame (ls_yuv_buf st1) w h of
                    None \<Rightarrow> (Some Undefined, st1)
                  | Some yuv \<Rightarrow>
                      (case p_vcam_write P cam yuv yuv_size (it_write it) (ls_out st1) of
                         (r, out', rest) \<Rightarrow>
                           (let st2 = st1\<lparr>ls_yuv_buf := yuv, ls_out := out',
                                          ls_log := ls_log st1 @ [VcamWrite]\<rparr>
                            in case r of
                                 None \<Rightarrow> (Some Blocked, st2)
                               | Some rv \<Rightarrow>
                                   if rv < 0 then (Some WriteError, st2)
                                   else
                                     (let frames = ls_frames st2 + 1;
                                          progress =
                                            (if frames mod nat fps = 0 then [Progress frames] else [])
                                      in (None, st2\<lparr>ls_frames := frames,
                                            ls_log := ls_log st2 @ progress @
                                              pace (p_long_bits P) frame_ns (it_t0 it) (it_t1 it)\<rparr>)))))))"

text \<open>\<^verbatim>\<open>while (running) { ... }\<close> over the passes given.\<close>

fun main_loop :: "('c, 'g, 'v) platform \<Rightarrow> 'v \<Rightarrow> int \<Rightarrow> int \<Rightarrow> nat \<Rightarrow> int \<Rightarrow> int \<Rightarrow>
    'g iter_env list \<Rightarrow> 'c loop_state \<Rightarrow> loop_end \<times> 'c loop_state" where
  "main_loop P cam w h yuv_size fps frame_ns [] st = (StillRunning, st)"
| "main_loop P cam w h yuv_size fps frame_ns (it # its) st =
    (if it_running it = 0 then (Stopped, st)
     else
       (case loop_body P cam w h yuv_size fps frame_ns it st of
          (Some e, st') \<Rightarrow> (e, st')
        | (None, st') \<Rightarrow> main_loop P cam w h yuv_size fps frame_ns its st'))"

text \<open>
  \<^verbatim>\<open>main\<close> after the options are parsed into \<open>device\<close> and \<open>fps\<close>: the exit code
  (\<open>None\<close> while the loop has not ended within the passes given) and the events.
  \<open>yuv_heap\<close> is what \<^verbatim>\<open>malloc(yuv_size)\<close> gives: \<open>None\<close> for \<^verbatim>\<open>NULL\<close>, otherwise
  the bytes the block happens to hold.
\<close>

definition main :: "('c, 'g, 'v) platform \<Rightarrow> string \<Rightarrow> int \<Rightarrow> (nat \<Rightarrow> byte) option \<Rightarrow>
    'g iter_env list \<Rightarrow> int option \<times> event list" where
  "main P device fps yuv_heap its =
    (if fps < 1 \<or> fps > 60 then (Some 1, [Stderr ''error: fps must be 1-60''])
     else
       (case p_capture_init P of
          None \<Rightarrow> (Some 1, [CaptureInit])
        | Some cap \<Rightarrow>
            (let w = p_capture_width P cap;
                 h = p_capture_height P cap
             in case p_vcam_open P device w h of
                  None \<Rightarrow> (Some 1, [CaptureInit, VcamOpen device w h, CaptureFree])
                | Some cam \<Rightarrow>
                    (let yuv_size = frame_size_of w h
                     in case yuv_heap of
                          None \<Rightarrow>
                            (Some 1, [CaptureInit, VcamOpen device w h, Stderr ''malloc'',
                                      VcamClose, CaptureFree])
                        | Some heap \<Rightarrow>
                            (let frame_ns = 1000000000 div fps;
                                 st0 = \<lparr>ls_cap = cap, ls_frames = 0,
                                        ls_yuv_buf = malloc_block heap yuv_size, ls_out = [],
                                        ls_log = [CaptureInit, VcamOpen device w h,
                                                  Banner w h fps device,
                                                  Stderr ''screen2cam: press Ctrl+C to stop'']\<rparr>
                             in case main_loop P cam w h yuv_size fps frame_ns its st0 of
                                  (e, st) \<Rightarrow>
                                    if e = Stopped \<or> e = WriteError then
                                      (Some 0, ls_log st @
                                         [Stopping (ls_frames st), VcamClose, CaptureFree])
                                    else (None, ls_log st))))))"

text \<open>
  The program as built for Windows (\<^verbatim>\<open>long\<close> has 32 bits there, also in 64-bit builds)
  and for Linux on a 64-bit target.
\<close>

definition windows_platform :: "init_env \<Rightarrow> bool \<Rightarrow> int \<Rightarrow> int \<Rightarrow> int \<Rightarrow>
    (capture_ctx, grab_env, vcam_win_ctx) platform" where
  "windows_platform ienv calloc_ok stdout_fd setmode_ret open_ret =
     \<lparr>p_long_bits = 32,
      p_capture_init = capture_init ienv,
      p_capture_width = capture_width,
      p_capture_height = capture_height,
      p_capture_grab = capture_grab,
      p_vcam_open = vcam_open_win calloc_ok stdout_fd setmode_ret open_ret,
      p_vcam_write = vcam_write_win\<rparr>"

definition linux_platform :: "x11_ctx option \<Rightarrow> bool \<Rightarrow> int \<Rightarrow> int \<Rightarrow>
    (x11_ctx, x11_grab_env, vcam_ctx) platform" where
  "linux_platform cap calloc_ok open_ret ioctl_ret =
     \<lparr>p_long_bits = 64,
      p_capture_init = cap,
      p_capture_width = x_width,
      p_capture_height = x_height,
      p_capture_grab = capture_grab_x11,
      p_vcam_open = vcam_open calloc_ok open_ret ioctl_ret,
      p_vcam_write = vcam_write\<rparr>"

text \<open>The \<^verbatim>\<open>nanosleep\<close> requests among the events, in nanoseconds.\<close>

fun nanosleeps :: "event list \<Rightarrow> int list" where
  "nanosleeps [] = []"
| "nanosleeps (Nanosleep s ns # evs) = (s * 1000000000 + ns) # nanosleeps evs"
| "nanosleeps (e # evs) = nanosleeps evs"

section \<open>Sample sessions\<close>

text \<open>
  A DXGI session on a desktop of one pixel: as \<^verbatim>\<open>capture_init\<close> leaves it when the
  heap holds the byte 205 everywhere, and with a frame in the buffer; a successful
  acquisition, a timeout and a lost duplication.
\<close>

definition desktop_1x1 :: capture_ctx where
  "desktop_1x1 = \<lparr>cw_width = 1, cw_height = 1, cw_buffer = [9, 9, 9, 9], cw_buffer_size = 4\<rparr>"

definition new_frame_env :: grab_env where
  "new_frame_env = \<lparr>ge_AcquireNextFrame = 0, ge_QueryInterface = 0, ge_Map = 0,
     ge_RowPitch = 4, ge_pData = [1, 2, 3, 4]\<rparr>"

definition timeout_env :: grab_env where
  "timeout_env = \<lparr>ge_AcquireNextFrame = DXGI_ERROR_WAIT_TIMEOUT, ge_QueryInterface = 0, ge_Map = 0,
     ge_RowPitch = 0, ge_pData = []\<rparr>"

definition access_lost_env :: grab_env where
  "access_lost_env = \<lparr>ge_AcquireNextFrame = DXGI_ERROR_ACCESS_LOST, ge_QueryInterface = 0, ge_Map = 0,
     ge_RowPitch = 0, ge_pData = []\<rparr>"

definition init_1x1 :: init_env where
  "init_1x1 = \<lparr>ie_CoInitializeEx = 0, ie_calloc_ok = True, ie_D3D11CreateDevice = 0,
     ie_QueryInterface_IDXGIDevice = 0, ie_GetAdapter = 0, ie_EnumOutputs = 0,
     ie_left = 0, ie_right = 1, ie_top = 0, ie_bottom = 1,
     ie_QueryInterface_IDXGIOutput1 = 0, ie_DuplicateOutput = 0, ie_CreateTexture2D = 0,
     ie_malloc_ok = True, ie_heap = (\<lambda>k. 205)\<rparr>"

definition fresh_1x1 :: capture_ctx where
  "fresh_1x1 = \<lparr>cw_width = 1, cw_height = 1, cw_buffer = [205, 205, 205, 205], cw_buffer_size = 4\<rparr>"

text \<open>A pass of the loop in which the duplication is lost, and what such a pass prints and sleeps.\<close>

definition access_lost_pass :: "grab_env iter_env" where
  "access_lost_pass = \<lparr>it_running = 1, it_t0 = \<lparr>tv_sec = 0, tv_nsec = 0\<rparr>,
     it_grab = access_lost_env, it_write = [], it_t1 = \<lparr>tv_sec = 0, tv_nsec = 0\<rparr>\<rparr>"

definition access_lost_events :: "event list" where
  "access_lost_events =
     [CaptureGrab, Stderr ''capture_win: access lost (desktop mode change?)'',
      Stderr ''screen2cam: capture failed, retrying...'', Usleep 100000]"

text \<open>
  A DXGI session on a desktop of 2x2 pixels whose heap holds zeros, and a pass of the loop
  that delivers a frame to a reader that is slow: the two readings of the clock are 3 s
  apart.
\<close>

definition zero_heap :: "nat \<Rightarrow> byte" where
  "zero_heap k = 0"

definition init_2x2 :: init_env where
  "init_2x2 = \<lparr>ie_CoInitializeEx = 0, ie_calloc_ok = True, ie_D3D11CreateDevice = 0,
     ie_QueryInterface_IDXGIDevice = 0, ie_GetAdapter = 0, ie_EnumOutputs = 0,
     ie_left = 0, ie_right = 2, ie_top = 0, ie_bottom = 2,
     ie_QueryInterface_IDXGIOutput1 = 0, ie_DuplicateOutput = 0, ie_CreateTexture2D = 0,
     ie_malloc_ok = True, ie_heap = zero_heap\<rparr>"

definition desktop_2x2 :: capture_ctx where
  "desktop_2x2 = \<lparr>cw_width = 2, cw_height = 2,
     cw_buffer = [0, 0, 0, 0,  0, 0, 0, 0,  0, 0, 0, 0,  0, 0, 0, 0], cw_buffer_size = 16\<rparr>"

definition frame_2x2_env :: grab_env where
  "frame_2x2_env = \<lparr>ge_AcquireNextFrame = 0, ge_QueryInterface = 0, ge_Map = 0,
     ge_RowPitch = 8, ge_pData = sample_2x2\<rparr>"

definition stalled_pass :: "grab_env iter_env" where
  "stalled_pass = \<lparr>it_running = 1, it_t0 = \<lparr>tv_sec = 10, tv_nsec = 0\<rparr>,
     it_grab = frame_2x2_env, it_write = [Wrote 6], it_t1 = \<lparr>tv_sec = 13, tv_nsec = 0\<rparr>\<rparr>"

section \<open>Proofs for convert.c\<close>

subsection \<open>Index arithmetic\<close>
lemma idx_lt: "i < w \<Longrightarrow> j < h \<Longrightarrow> j * w + i < w * (h::nat)"
proof -
  assume a: "i < w" "j < h"
  then have "j * w + i < Suc j * w" by simp
  also have "\<dots> \<le> h * w" using a by (intro mult_le_mono1) simp
  finally show ?thesis by (simp add: mult.commute)
qed

lemma idx_inj: "i < w \<Longrightarrow> i' < w \<Longrightarrow> j * w + i = j' * w + i' \<Longrightarrow> j = j' \<and> i = (i'::nat)"
proof -
  assume a: "i < w" "i' < w" "j * w + i = j' * w + i'"
  have "(j * w + i) div w = j" "(j * w + i) mod w = i" using a(1) by simp_all
  moreover have "(j' * w + i') div w = j'" "(j' * w + i') mod w = i'" using a(2) by simp_all
  ultimately show ?thesis using a(3) by metis
qed

lemma wr_Some: "k < length d \<Longrightarrow> wr d k v = Some (d[k := v])"
  by (simp add: wr_def)

lemma px_body_ok:
  assumes "(j * w + i) * 4 + 2 < length src" "int ((j * w + i) * 4) \<le> INT_MAX"
    and "j * w + i < length d"
    and "w * h + (j div 2) * (w div 2) + i div 2 < length d"
    and "w * h + (w div 2) * (h div 2) + (j div 2) * (w div 2) + i div 2 < length d"
  shows "px_body w h src j i d =
    Some (if even j \<and> even i
          then d[j * w + i := y_at src w j i,
                 w * h + (j div 2) * (w div 2) + i div 2 := u_at src w j i,
                 w * h + (w div 2) * (h div 2) + (j div 2) * (w div 2) + i div 2 := v_at src w j i]
          else d[j * w + i := y_at src w j i])"
  using assms
  by (simp add: px_body_def Let_def rd_def wr_def y_at_def u_at_def v_at_def px_R_def px_G_def px_B_def
      and_one_eq even_iff_mod_2_eq_zero add.assoc)

subsection \<open>The loops establish the planes\<close>

lemma px_step:
  assumes ev: "even w" "even h"
    and src: "4 * (w * h) \<le> length src"
    and im: "int (4 * (w * h)) \<le> INT_MAX"
    and dl: "w * h + 2 * ((w div 2) * (h div 2)) \<le> length d0"
    and j: "j < h" and i: "i < w"
    and inv: "conv_inv w h src d0 j i d"
  shows "\<exists>d'. px_body w h src j i d = Some d' \<and> conv_inv w h src d0 j (Suc i) d'"
proof -
  define hw hh where "hw = w div 2" and "hh = h div 2"
  have w2: "w = 2 * hw" and h2: "h = 2 * hh"
    using ev by (simp_all add: hw_def hh_def)
  define yi ui vi where "yi = j * w + i"
    and "ui = w * h + (j div 2) * hw + i div 2"
    and "vi = w * h + hw * hh + (j div 2) * hw + i div 2"
  have len: "length d = length d0"
    and invY: "\<And>j' i'. i' < w \<Longrightarrow> j' < j \<or> j' = j \<and> i' < i \<Longrightarrow> d ! (j' * w + i') = y_at src w j' i'"
    and invU: "\<And>cj ci. ci < hw \<Longrightarrow> 2 * cj < j \<or> 2 * cj = j \<and> 2 * ci < i \<Longrightarrow>
        d ! (w * h + cj * hw + ci) = u_at src w (2 * cj) (2 * ci)"
    and invV: "\<And>cj ci. ci < hw \<Longrightarrow> 2 * cj < j \<or> 2 * cj = j \<and> 2 * ci < i \<Longrightarrow>
        d ! (w * h + hw * hh + cj * hw + ci) = v_at src w (2 * cj) (2 * ci)"
    and invF: "\<And>k. w * h + 2 * (hw * hh) \<le> k \<Longrightarrow> d ! k = d0 ! k"
    using inv by (simp_all add: conv_inv_def hw_def hh_def)
  have yi_lt: "yi < w * h"
    unfolding yi_def using i j by (rule idx_lt)
  have cj: "j div 2 < hh" and ci: "i div 2 < hw"
    using i j w2 h2 by auto
  have c_lt: "(j div 2) * hw + i div 2 < hw * hh"
    using ci cj by (rule idx_lt)
  have ui_lt: "ui < w * h + hw * hh" and ui_ge: "w * h \<le> ui"
    using c_lt by (simp_all add: ui_def ac_simps)
  have vi_lt: "vi < w * h + 2 * (hw * hh)" and vi_ge: "w * h + hw * hh \<le> vi"
    using c_lt by (simp_all add: vi_def ac_simps)
  have dl': "w * h + 2 * (hw * hh) \<le> length d"
    using dl len by (simp add: hw_def hh_def)
  have b1: "(j * w + i) * 4 + 2 < length src"
    using yi_lt src by (simp add: yi_def)
  have "(j * w + i) * 4 \<le> 4 * (w * h)"
    using yi_lt by (simp add: yi_def)
  then have "int ((j * w + i) * 4) \<le> int (4 * (w * h))"
    by (simp only: of_nat_le_iff)
  then have b2: "int ((j * w + i) * 4) \<le> INT_MAX"
    using im by (rule order_trans)
  define d' where "d' = (if even j \<and> even i
          then d[yi := y_at src w j i, ui := u_at src w j i, vi := v_at src w j i]
          else d[yi := y_at src w j i])"
  have body: "px_body w h src j i d = Some d'"
    unfolding d'_def yi_def ui_def vi_def hw_def hh_def
    apply (rule px_body_ok [OF b1 b2])
    using yi_lt ui_lt vi_lt dl' by (simp_all add: yi_def ui_def vi_def hw_def hh_def)
  have len': "length d' = length d0"
    by (simp add: d'_def len)
  have nthY: "d' ! yi = y_at src w j i"
    using yi_lt ui_ge vi_ge dl' by (simp add: d'_def)
  have nth_other: "d' ! k = d ! k" if "k \<noteq> yi" "even j \<and> even i \<longrightarrow> k \<noteq> ui \<and> k \<noteq> vi" for k
    using that by (auto simp add: d'_def)
  have nthU: "d' ! ui = u_at src w j i" if "even j" "even i"
    using that ui_lt vi_ge dl' by (simp add: d'_def)
  have nthV: "d' ! vi = v_at src w j i" if "even j" "even i"
    using that vi_lt dl' by (simp add: d'_def)
  have Y: "d' ! (j' * w + i') = y_at src w j' i'"
    if a: "i' < w" "j' < j \<or> j' = j \<and> i' < Suc i" for j' i'
  proof (cases "j' = j \<and> i' = i")
    case True
    then show ?thesis using nthY by (simp add: yi_def)
  next
    case False
    then have old: "j' < j \<or> j' = j \<and> i' < i" using a by auto
    have "j' < h" using a j by auto
    then have lt: "j' * w + i' < w * h" using a(1) by (intro idx_lt)
    have "j' * w + i' \<noteq> yi"
      using idx_inj [OF a(1) i, of j' j] False by (auto simp: yi_def)
    moreover have "j' * w + i' \<noteq> ui" "j' * w + i' \<noteq> vi"
      using lt ui_ge vi_ge by auto
    ultimately have "d' ! (j' * w + i') = d ! (j' * w + i')"
      by (intro nth_other) auto
    then show ?thesis using invY [OF a(1) old] by simp
  qed
  have UV: "d' ! (w * h + cj * hw + ci) = u_at src w (2 * cj) (2 * ci) \<and>
            d' ! (w * h + hw * hh + cj * hw + ci) = v_at src w (2 * cj) (2 * ci)"
    if a: "ci < hw" "2 * cj < j \<or> 2 * cj = j \<and> 2 * ci < Suc i" for cj ci
  proof (cases "2 * cj = j \<and> 2 * ci = i")
    case True
    then have e: "even j" "even i" by auto
    from True have "j div 2 = cj" "i div 2 = ci" by auto
    then have "ui = w * h + cj * hw + ci" "vi = w * h + hw * hh + cj * hw + ci"
      by (simp_all add: ui_def vi_def)
    then show ?thesis using nthU [OF e] nthV [OF e] True by auto
  next
    case False
    then have old: "2 * cj < j \<or> 2 * cj = j \<and> 2 * ci < i" using a by auto
    have "cj < hh" using a j h2 by auto
    with a(1) have lt: "cj * hw + ci < hw * hh" by (intro idx_lt)
    have ne: "even j \<and> even i \<longrightarrow> cj * hw + ci \<noteq> (j div 2) * hw + i div 2"
    proof (intro impI notI)
      assume e: "even j \<and> even i" and eq: "cj * hw + ci = (j div 2) * hw + i div 2"
      from idx_inj [OF a(1) \<open>i div 2 < hw\<close> eq] have "cj = j div 2" "ci = i div 2" by auto
      with e have "2 * cj = j \<and> 2 * ci = i" by auto
      with False show False by simp
    qed
    have "d' ! (w * h + cj * hw + ci) = d ! (w * h + cj * hw + ci)"
      using ne lt yi_lt vi_ge by (intro nth_other) (auto simp: ui_def)
    moreover have "d' ! (w * h + hw * hh + cj * hw + ci) = d ! (w * h + hw * hh + cj * hw + ci)"
      using ne lt yi_lt ui_lt by (intro nth_other) (auto simp: vi_def)
    ultimately show ?thesis using invU [OF a(1) old] invV [OF a(1) old] by simp
  qed
  have F: "d' ! k = d0 ! k" if "w * h + 2 * (hw * hh) \<le> k" for k
  proof -
    have "d' ! k = d ! k"
      using that yi_lt ui_lt vi_lt by (intro nth_other) auto
    then show ?thesis using invF [OF that] by simp
  qed
  have "conv_inv w h src d0 j (Suc i) d'"
    unfolding conv_inv_def using len' Y UV F by (simp add: hw_def hh_def)
  with body show ?thesis by blast
qed

lemma cols_inv:
  assumes ev: "even w" "even h"
    and src: "4 * (w * h) \<le> length src"
    and im: "int (4 * (w * h)) \<le> INT_MAX"
    and dl: "w * h + 2 * ((w div 2) * (h div 2)) \<le> length d0"
    and j: "j < h"
  shows "i \<le> w \<Longrightarrow> conv_inv w h src d0 j i d \<Longrightarrow>
    \<exists>d'. cols w h src j i d = Some d' \<and> conv_inv w h src d0 j w d'"
proof (induction "w - i" arbitrary: i d)
  case 0
  then have "i = w" by simp
  with 0 show ?case by (simp add: cols.simps)
next
  case (Suc n)
  then have i: "i < w" by simp
  from px_step [OF ev src im dl j i Suc.prems(2)]
  obtain d1 where d1: "px_body w h src j i d = Some d1" "conv_inv w h src d0 j (Suc i) d1"
    by blast
  have "n = w - Suc i" "Suc i \<le> w" using Suc.hyps(2) i by simp_all
  from Suc.hyps(1) [OF this d1(2)]
  obtain d' where "cols w h src j (Suc i) d1 = Some d'" "conv_inv w h src d0 j w d'"
    by blast
  then show ?case using i d1(1) by (subst cols.simps) simp
qed

lemma conv_inv_next_row:
  assumes "even w" "conv_inv w h src d0 j w d"
  shows "conv_inv w h src d0 (Suc j) 0 d"
proof -
  have "2 * ci < w" if "ci < w div 2" for ci
    using that assms(1) by auto
  then show ?thesis
    using assms(2) unfolding conv_inv_def
    by (auto simp: less_Suc_eq)
qed

lemma rows_inv:
  assumes ev: "even w" "even h"
    and src: "4 * (w * h) \<le> length src"
    and im: "int (4 * (w * h)) \<le> INT_MAX"
    and dl: "w * h + 2 * ((w div 2) * (h div 2)) \<le> length d0"
  shows "j \<le> h \<Longrightarrow> conv_inv w h src d0 j 0 d \<Longrightarrow>
    \<exists>d'. rows w h src j d = Some d' \<and> conv_inv w h src d0 h 0 d'"
proof (induction "h - j" arbitrary: j d)
  case 0
  then have "j = h" by simp
  with 0 show ?case by (simp add: rows.simps)
next
  case (Suc n)
  then have j: "j < h" by simp
  from cols_inv [OF ev src im dl j _ Suc.prems(2)]
  obtain d1 where d1: "cols w h src j 0 d = Some d1" "conv_inv w h src d0 j w d1"
    by auto
  have d1': "conv_inv w h src d0 (Suc j) 0 d1"
    using ev(1) d1(2) by (rule conv_inv_next_row)
  have "n = h - Suc j" "Suc j \<le> h" using Suc.hyps(2) j by simp_all
  from Suc.hyps(1) [OF this d1']
  obtain d' where "rows w h src (Suc j) d1 = Some d'" "conv_inv w h src d0 h 0 d'"
    by blast
  then show ?case using j d1(1) by (subst rows.simps) simp
qed

lemma conv_inv_init: "conv_inv w h src d0 0 0 d0"
  by (simp add: conv_inv_def)

text \<open>the pointwise description of the output\<close>

lemma bgra_to_yuv420p_pointwise:
  assumes ev: "even w" "even h"
    and src: "4 * (w * h) \<le> length src"
    and im: "int (4 * (w * h)) \<le> INT_MAX"
    and dl: "w * h + 2 * ((w div 2) * (h div 2)) \<le> length dst"
  obtains d' where "bgra_to_yuv420p src dst (int w) (int h) = Some d'"
    and "length d' = length dst"
    and "\<And>j i. j < h \<Longrightarrow> i < w \<Longrightarrow> d' ! (j * w + i) = y_at src w j i"
    and "\<And>cj ci. cj < h div 2 \<Longrightarrow> ci < w div 2 \<Longrightarrow>
           d' ! (w * h + cj * (w div 2) + ci) = u_at src w (2 * cj) (2 * ci)"
    and "\<And>cj ci. cj < h div 2 \<Longrightarrow> ci < w div 2 \<Longrightarrow>
           d' ! (w * h + (w div 2) * (h div 2) + cj * (w div 2) + ci) = v_at src w (2 * cj) (2 * ci)"
    and "\<And>k. w * h + 2 * ((w div 2) * (h div 2)) \<le> k \<Longrightarrow> d' ! k = dst ! k"
proof -
  have "\<exists>d'. rows w h src 0 dst = Some d' \<and> conv_inv w h src dst h 0 d'"
    by (rule rows_inv [OF ev src im dl]) (simp_all add: conv_inv_init)
  then obtain d' where d': "rows w h src 0 dst = Some d'" "conv_inv w h src dst h 0 d'"
    by blast
  have "int (w * h) \<le> int (4 * (w * h))"
    by (simp only: of_nat_le_iff)
  then have "int (w * h) \<le> INT_MAX"
    using im by (rule order_trans)
  then have "int w * int h \<le> INT_MAX"
    by simp
  moreover have "- INT_MAX - 1 \<le> int w * int h"
  proof -
    have "(0::int) \<le> int w * int h" by simp
    then show ?thesis unfolding INT_MAX_def by linarith
  qed
  ultimately have run: "bgra_to_yuv420p src dst (int w) (int h) = Some d'"
    using d'(1) by (simp add: bgra_to_yuv420p_def)
  have c: "2 * cj < h" if "cj < h div 2" for cj
    using that ev(2) by auto
  show thesis
  proof (rule that [OF run])
    show "length d' = length dst" using d'(2) by (simp add: conv_inv_def)
  next
    fix j i assume "j < h" "i < w"
    then show "d' ! (j * w + i) = y_at src w j i"
      using d'(2) by (simp add: conv_inv_def)
  next
    fix cj ci assume a: "cj < h div 2" "ci < w div 2"
    then show "d' ! (w * h + cj * (w div 2) + ci) = u_at src w (2 * cj) (2 * ci)"
      using d'(2) c [OF a(1)] by (simp add: conv_inv_def)
    from a show "d' ! (w * h + (w div 2) * (h div 2) + cj * (w div 2) + ci) = v_at src w (2 * cj) (2 * ci)"
      using d'(2) c [OF a(1)] by (simp add: conv_inv_def)
  next
    fix k assume "w * h + 2 * ((w div 2) * (h div 2)) \<le> k"
    then show "d' ! k = dst ! k"
      using d'(2) by (simp add: conv_inv_def)
  qed
qed

lemma split_idx: "k < w * h \<Longrightarrow> k div w < h \<and> k mod w < w \<and> (k div w) * w + k mod w = (k::nat)"
proof -
  assume a: "k < w * h"
  then have "0 < w" by (cases w) auto
  then show ?thesis using a by (simp add: less_mult_imp_div_less mult.commute)
qed

lemma nth_append4:
  "length a = n \<Longrightarrow> length b = m \<Longrightarrow> length c = m \<Longrightarrow> n + 2 * m \<le> k \<Longrightarrow>
   (a @ b @ c @ r) ! k = r ! (k - (n + 2 * m))"
proof -
  assume a: "length a = n" "length b = m" "length c = m" "n + 2 * m \<le> k"
  define k' where "k' = k - (n + 2 * m)"
  have k: "k = length a + (length b + (length c + k'))"
    using a by (simp add: k'_def)
  have "(a @ b @ c @ r) ! k = r ! k'"
    by (simp only: k nth_append_length_plus)
  then show ?thesis by (simp only: k'_def)
qed

lemma bgra_to_yuv420p_planes:
  assumes ev: "even w" "even h"
    and src: "4 * (w * h) \<le> length src"
    and im: "int (4 * (w * h)) \<le> INT_MAX"
    and dl: "w * h + 2 * ((w div 2) * (h div 2)) \<le> length dst"
  shows "bgra_to_yuv420p src dst (int w) (int h) =
    Some (luma_plane src w h @ cb_plane src w h @ cr_plane src w h @
          drop (w * h + 2 * ((w div 2) * (h div 2))) dst)"
proof -
  define hw hh where "hw = w div 2" and "hh = h div 2"
  from bgra_to_yuv420p_pointwise [OF ev src im dl]
  obtain d' where run: "bgra_to_yuv420p src dst (int w) (int h) = Some d'"
    and len: "length d' = length dst"
    and Y: "\<And>j i. j < h \<Longrightarrow> i < w \<Longrightarrow> d' ! (j * w + i) = y_at src w j i"
    and U: "\<And>cj ci. cj < hh \<Longrightarrow> ci < hw \<Longrightarrow>
           d' ! (w * h + cj * hw + ci) = u_at src w (2 * cj) (2 * ci)"
    and V: "\<And>cj ci. cj < hh \<Longrightarrow> ci < hw \<Longrightarrow>
           d' ! (w * h + hw * hh + cj * hw + ci) = v_at src w (2 * cj) (2 * ci)"
    and F: "\<And>k. w * h + 2 * (hw * hh) \<le> k \<Longrightarrow> d' ! k = dst ! k"
    unfolding hw_def hh_def by blast
  let ?ys = "luma_plane src w h" and ?us = "cb_plane src w h" and ?vs = "cr_plane src w h"
  let ?rest = "drop (w * h + 2 * (hw * hh)) dst"
  have ly: "length ?ys = w * h" and lu: "length ?us = hw * hh" and lv: "length ?vs = hw * hh"
    by (simp_all add: luma_plane_def cb_plane_def cr_plane_def hw_def hh_def)
  have dl': "w * h + 2 * (hw * hh) \<le> length dst"
    using dl by (simp add: hw_def hh_def)
  have "d' = ?ys @ ?us @ ?vs @ ?rest"
  proof (rule nth_equalityI)
    have "length ?rest = length dst - (w * h + 2 * (hw * hh))"
      by (simp only: length_drop)
    then show "length d' = length (?ys @ ?us @ ?vs @ ?rest)"
      unfolding length_append ly lu lv len using dl' by linarith
  next
    fix k assume "k < length d'"
    then have k: "k < length dst" by (simp add: len)
    consider (y) "k < w * h" | (u) "w * h \<le> k" "k < w * h + hw * hh"
      | (v) "w * h + hw * hh \<le> k" "k < w * h + 2 * (hw * hh)"
      | (r) "w * h + 2 * (hw * hh) \<le> k"
      by linarith
    then show "d' ! k = (?ys @ ?us @ ?vs @ ?rest) ! k"
    proof cases
      case y
      from split_idx [OF y] have s: "k div w < h" "k mod w < w" "(k div w) * w + k mod w = k"
        by simp_all
      have "(?ys @ ?us @ ?vs @ ?rest) ! k = ?ys ! k"
        using y by (simp add: nth_append ly)
      also have "\<dots> = y_at src w (k div w) (k mod w)"
        using y by (simp add: luma_plane_def)
      also have "\<dots> = d' ! ((k div w) * w + k mod w)"
        using Y [OF s(1,2)] by simp
      finally show ?thesis using s(3) by simp
    next
      case u
      define c where "c = k - w * h"
      have c: "c < hw * hh" "k = w * h + c" using u by (simp_all add: c_def)
      from split_idx [OF c(1)] have s: "c div hw < hh" "c mod hw < hw" "(c div hw) * hw + c mod hw = c"
        by simp_all
      have "(?ys @ ?us @ ?vs @ ?rest) ! k = ?us ! c"
        using c by (simp add: nth_append ly lu)
      also have "\<dots> = u_at src w (2 * (c div hw)) (2 * (c mod hw))"
        using c(1) by (simp add: cb_plane_def hw_def hh_def)
      also have "\<dots> = d' ! (w * h + (c div hw) * hw + c mod hw)"
        using U [OF s(1,2)] by simp
      finally show ?thesis using s(3) c(2) by (simp add: add.assoc)
    next
      case v
      define c where "c = k - (w * h + hw * hh)"
      have c: "c < hw * hh" "k = w * h + hw * hh + c" using v by (simp_all add: c_def)
      from split_idx [OF c(1)] have s: "c div hw < hh" "c mod hw < hw" "(c div hw) * hw + c mod hw = c"
        by simp_all
      have "(?ys @ ?us @ ?vs @ ?rest) ! k = ?vs ! c"
        using c by (simp add: nth_append ly lu lv)
      also have "\<dots> = v_at src w (2 * (c div hw)) (2 * (c mod hw))"
        using c(1) by (simp add: cr_plane_def hw_def hh_def)
      also have "\<dots> = d' ! (w * h + hw * hh + (c div hw) * hw + c mod hw)"
        using V [OF s(1,2)] by simp
      finally show ?thesis using s(3) c(2) by (simp add: add.assoc)
    next
      case r
      have "(?ys @ ?us @ ?vs @ ?rest) ! k = ?rest ! (k - (w * h + 2 * (hw * hh)))"
        using ly lu lv r by (rule nth_append4)
      also have "\<dots> = dst ! k"
        using r k by simp
      finally show ?thesis using F [OF r] by simp
    qed
  qed
  with run show ?thesis by (simp add: hw_def hh_def)
qed

subsection \<open>The stored bytes and the reference formulas\<close>

lemma uint_sat_u8: "uint (sat_u8 y) = clamp y 0 255"
proof -
  have "uint (word_of_int x :: byte) = x" if "0 \<le> x" "x \<le> 255" for x
    using that by (simp add: uint_word_of_int take_bit_int_eq_self)
  then show ?thesis
    by (simp add: sat_u8_def clamp_def max_def min_def)
qed

lemma sat_calc_y: "uint (sat_u8 (calc_y r g b)) = ref_Y (uint r) (uint g) (uint b)"
  by (simp add: uint_sat_u8 calc_y_def ref_Y_def drop_bit_eq_div)

lemma sat_calc_u: "uint (sat_u8 (calc_u r g b)) = ref_U (uint r) (uint g) (uint b)"
  by (simp add: uint_sat_u8 calc_u_def ref_U_def drop_bit_eq_div)

lemma sat_calc_v: "uint (sat_u8 (calc_v r g b)) = ref_V (uint r) (uint g) (uint b)"
  by (simp add: uint_sat_u8 calc_v_def ref_V_def drop_bit_eq_div)

lemma at_alpha:
  assumes "length src' = length src"
    and "\<forall>k<length src. k mod 4 \<noteq> 3 \<longrightarrow> src' ! k = src ! k"
    and "4 * (w * h) \<le> length src" and "j < h" and "i < w"
  shows "y_at src' w j i = y_at src w j i" "u_at src' w j i = u_at src w j i"
    "v_at src' w j i = v_at src w j i"
proof -
  have "j * w + i < w * h" using assms(5,4) by (rule idx_lt)
  then have b: "(j * w + i) * 4 + 2 < length src" using assms(3) by simp
  have "src' ! ((j * w + i) * 4) = src ! ((j * w + i) * 4)"
    using b assms(2) by simp
  moreover have "src' ! ((j * w + i) * 4 + 1) = src ! ((j * w + i) * 4 + 1)"
    using b assms(2) by (simp add: mod_Suc)
  moreover have "src' ! ((j * w + i) * 4 + 2) = src ! ((j * w + i) * 4 + 2)"
  proof -
    have "((j * w + i) * 4 + 2) mod 4 = 2" by presburger
    then show ?thesis using b assms(2) by simp
  qed
  ultimately show "y_at src' w j i = y_at src w j i" "u_at src' w j i = u_at src w j i"
    "v_at src' w j i = v_at src w j i"
    by (simp_all add: y_at_def u_at_def v_at_def px_R_def px_G_def px_B_def)
qed

lemma planes_alpha:
  assumes "length src' = length src"
    and "\<forall>k<length src. k mod 4 \<noteq> 3 \<longrightarrow> src' ! k = src ! k"
    and "4 * (w * h) \<le> length src"
  shows "luma_plane src' w h = luma_plane src w h"
    and "cb_plane src' w h = cb_plane src w h"
    and "cr_plane src' w h = cr_plane src w h"
proof -
  show "luma_plane src' w h = luma_plane src w h"
    unfolding luma_plane_def
    by (rule map_cong [OF refl]) (use split_idx [of _ w h] at_alpha(1) [OF assms] in auto)
  have c: "2 * (c div (w div 2)) < h \<and> 2 * (c mod (w div 2)) < w" if "c < (w div 2) * (h div 2)" for c
    using split_idx [OF that] by auto
  show "cb_plane src' w h = cb_plane src w h"
    unfolding cb_plane_def
    by (rule map_cong [OF refl]) (use c at_alpha(2) [OF assms] in auto)
  show "cr_plane src' w h = cr_plane src w h"
    unfolding cr_plane_def
    by (rule map_cong [OF refl]) (use c at_alpha(3) [OF assms] in auto)
qed

lemma frame_size_even: "even w \<Longrightarrow> even h \<Longrightarrow> w * h + 2 * ((w div 2) * (h div 2)) = w * h * 3 div (2::nat)"
  by (elim evenE) simp

subsection \<open>White and black\<close>

lemma sample_alpha_agree:
  "\<forall>k<length sample_2x2. k mod 4 \<noteq> 3 \<longrightarrow> sample_2x2_alpha ! k = sample_2x2 ! k"
proof -
  have "\<forall>k\<in>set [0..<16]. k mod 4 \<noteq> 3 \<longrightarrow> sample_2x2_alpha ! k = sample_2x2 ! k"
    by code_simp
  moreover have "length sample_2x2 = 16"
    by (simp add: sample_2x2_def)
  ultimately show ?thesis by simp
qed

text \<open>
  Claim C2, as the code has it. The coefficients are those of BT.601 in studio range, so
  white does not reach 255: the all-white pixel \<open>(R, G, B) = (255, 255, 255)\<close> is stored
  as \<open>Y = 235\<close>, \<open>U = 128\<close>, \<open>V = 128\<close>, and the all-black pixel \<open>(0, 0, 0)\<close> as
  \<open>Y = 16\<close>, \<open>U = 128\<close>, \<open>V = 128\<close>; shown on the stored bytes of one pixel and on
  whole 2x2 frames.
\<close>

theorem white_black_pixel_values:
  "bgra_to_yuv420p white_2x2 [0, 0, 0, 0, 0, 0] 2 2 = Some [235, 235, 235, 235, 128, 128] \<and>
   bgra_to_yuv420p black_2x2 [0, 0, 0, 0, 0, 0] 2 2 = Some [16, 16, 16, 16, 128, 128] \<and>
   sat_u8 (calc_y 255 255 255) = 235 \<and> sat_u8 (calc_u 255 255 255) = 128 \<and>
   sat_u8 (calc_v 255 255 255) = 128 \<and>
   sat_u8 (calc_y 0 0 0) = 16 \<and> sat_u8 (calc_u 0 0 0) = 128 \<and> sat_u8 (calc_v 0 0 0) = 128"
proof -
  have "bgra_to_yuv420p white_2x2 [0, 0, 0, 0, 0, 0] 2 2 = Some [235, 235, 235, 235, 128, 128]"
    by code_simp
  moreover
  have "bgra_to_yuv420p black_2x2 [0, 0, 0, 0, 0, 0] 2 2 = Some [16, 16, 16, 16, 128, 128]"
    by code_simp
  ultimately show ?thesis
    by (simp add: sat_u8_def calc_y_def calc_u_def calc_v_def drop_bit_eq_div)
qed

text \<open>
  The claim as stated asks for \<open>Y = 255\<close> (within rounding) on the white pixel. The luma
  byte the code stores for the first pixel of the white frame is more than 1 away from 255.
\<close>

theorem white_luma_not_255:
  "\<not> \<bar>uint (the (bgra_to_yuv420p white_2x2 [0, 0, 0, 0, 0, 0] 2 2) ! 0) - 255\<bar> \<le> 1"
  by code_simp

subsection \<open>The reference formulas\<close>

text \<open>
  Claim C3. For even dimensions, a source of at least \<open>4 * w * h\<close> bytes (whose indices
  fit an \<^verbatim>\<open>int\<close>) and a destination that holds the three planes, the call returns, and
  in its output: the luma byte of every pixel \<open>(j, i)\<close> is the reference \<open>Y\<close> of that
  pixel's red, green and blue; each 2x2 block \<open>(cj, ci)\<close> has one byte in each chroma
  plane, the reference \<open>U\<close> and \<open>V\<close> of the block's top-left pixel \<open>(2 cj, 2 ci)\<close> alone;
  and a source that differs only in alpha bytes (offsets \<open>3 mod 4\<close>) gives the same output.
\<close>

theorem bgra_to_yuv420p_reference:
  assumes ev: "even w" "even h"
    and src: "4 * (w * h) \<le> length src"
    and im: "int (4 * (w * h)) \<le> INT_MAX"
    and dl: "w * h + 2 * ((w div 2) * (h div 2)) \<le> length dst"
  shows "\<exists>d'. bgra_to_yuv420p src dst (int w) (int h) = Some d' \<and>
    (\<forall>j i. j < h \<and> i < w \<longrightarrow>
       uint (d' ! (j * w + i)) =
         ref_Y (uint (px_R src w j i)) (uint (px_G src w j i)) (uint (px_B src w j i))) \<and>
    (\<forall>cj ci. cj < h div 2 \<and> ci < w div 2 \<longrightarrow>
       uint (d' ! (w * h + cj * (w div 2) + ci)) =
         ref_U (uint (px_R src w (2 * cj) (2 * ci))) (uint (px_G src w (2 * cj) (2 * ci)))
               (uint (px_B src w (2 * cj) (2 * ci))) \<and>
       uint (d' ! (w * h + (w div 2) * (h div 2) + cj * (w div 2) + ci)) =
         ref_V (uint (px_R src w (2 * cj) (2 * ci))) (uint (px_G src w (2 * cj) (2 * ci)))
               (uint (px_B src w (2 * cj) (2 * ci)))) \<and>
    (\<forall>src'. length src' = length src \<and> (\<forall>k<length src. k mod 4 \<noteq> 3 \<longrightarrow> src' ! k = src ! k) \<longrightarrow>
       bgra_to_yuv420p src' dst (int w) (int h) = Some d')"
proof -
  from bgra_to_yuv420p_pointwise [OF ev src im dl]
  obtain d' where run: "bgra_to_yuv420p src dst (int w) (int h) = Some d'"
    and len: "length d' = length dst"
    and Y: "\<And>j i. j < h \<Longrightarrow> i < w \<Longrightarrow> d' ! (j * w + i) = y_at src w j i"
    and U: "\<And>cj ci. cj < h div 2 \<Longrightarrow> ci < w div 2 \<Longrightarrow>
           d' ! (w * h + cj * (w div 2) + ci) = u_at src w (2 * cj) (2 * ci)"
    and V: "\<And>cj ci. cj < h div 2 \<Longrightarrow> ci < w div 2 \<Longrightarrow>
           d' ! (w * h + (w div 2) * (h div 2) + cj * (w div 2) + ci) = v_at src w (2 * cj) (2 * ci)"
    and F: "\<And>k. w * h + 2 * ((w div 2) * (h div 2)) \<le> k \<Longrightarrow> d' ! k = dst ! k"
    by blast
  have A: "bgra_to_yuv420p src' dst (int w) (int h) = Some d'"
    if a: "length src' = length src" "\<forall>k<length src. k mod 4 \<noteq> 3 \<longrightarrow> src' ! k = src ! k" for src'
  proof -
    have src': "4 * (w * h) \<le> length src'" using src a(1) by simp
    have "bgra_to_yuv420p src' dst (int w) (int h) = bgra_to_yuv420p src dst (int w) (int h)"
      by (simp only: bgra_to_yuv420p_planes [OF ev src im dl]
          bgra_to_yuv420p_planes [OF ev src' im dl] planes_alpha [OF a src])
    then show ?thesis
      using run by simp
  qed
  have Yr: "uint (d' ! (j * w + i)) =
         ref_Y (uint (px_R src w j i)) (uint (px_G src w j i)) (uint (px_B src w j i))"
    if "j < h \<and> i < w" for j i
    using that Y [of j i] by (simp add: y_at_def sat_calc_y)
  have Ur: "uint (d' ! (w * h + cj * (w div 2) + ci)) =
         ref_U (uint (px_R src w (2 * cj) (2 * ci))) (uint (px_G src w (2 * cj) (2 * ci)))
               (uint (px_B src w (2 * cj) (2 * ci)))"
    if "cj < h div 2 \<and> ci < w div 2" for cj ci
    using that U [of cj ci] by (simp add: u_at_def sat_calc_u)
  have Vr: "uint (d' ! (w * h + (w div 2) * (h div 2) + cj * (w div 2) + ci)) =
         ref_V (uint (px_R src w (2 * cj) (2 * ci))) (uint (px_G src w (2 * cj) (2 * ci)))
               (uint (px_B src w (2 * cj) (2 * ci)))"
    if "cj < h div 2 \<and> ci < w div 2" for cj ci
    using that V [of cj ci] by (simp add: v_at_def sat_calc_v)
  show ?thesis
    apply (rule exI [of _ d'])
    apply (intro conjI allI impI)
        apply (rule run)
       apply (erule Yr)
      apply (erule Ur)
     apply (erule Vr)
    apply (erule conjE)
    apply (erule (1) A)
    done
qed

text \<open>The theorem at a 2x2 frame of four different pixels.\<close>

theorem bgra_to_yuv420p_reference_witness:
  "even (2::nat) \<and> 4 * (2 * 2) \<le> length sample_2x2 \<and> int (4 * (2 * 2)) \<le> INT_MAX \<and>
   (2::nat) * 2 + 2 * ((2 div 2) * (2 div 2)) \<le> length [0, 0, 0, 0, 0, 0 :: byte] \<and>
   (\<exists>d'. bgra_to_yuv420p sample_2x2 [0, 0, 0, 0, 0, 0] (int 2) (int 2) = Some d' \<and>
      uint (d' ! (1 * 2 + 1)) =
        ref_Y (uint (px_R sample_2x2 2 1 1)) (uint (px_G sample_2x2 2 1 1)) (uint (px_B sample_2x2 2 1 1)) \<and>
      uint (d' ! (2 * 2 + 0 * (2 div 2) + 0)) =
        ref_U (uint (px_R sample_2x2 2 (2 * 0) (2 * 0))) (uint (px_G sample_2x2 2 (2 * 0) (2 * 0)))
              (uint (px_B sample_2x2 2 (2 * 0) (2 * 0))) \<and>
      uint (d' ! (2 * 2 + (2 div 2) * (2 div 2) + 0 * (2 div 2) + 0)) =
        ref_V (uint (px_R sample_2x2 2 (2 * 0) (2 * 0))) (uint (px_G sample_2x2 2 (2 * 0) (2 * 0)))
              (uint (px_B sample_2x2 2 (2 * 0) (2 * 0))) \<and>
      bgra_to_yuv420p sample_2x2_alpha [0, 0, 0, 0, 0, 0] (int 2) (int 2) = Some d')"
proof -
  have h: "even (2::nat)" "4 * (2 * 2) \<le> length sample_2x2" "int (4 * (2 * 2)) \<le> INT_MAX"
    "(2::nat) * 2 + 2 * ((2 div 2) * (2 div 2)) \<le> length [0, 0, 0, 0, 0, 0 :: byte]"
    by (simp_all add: sample_2x2_def INT_MAX_def)
  have l: "length sample_2x2_alpha = length sample_2x2"
    by (simp add: sample_2x2_def sample_2x2_alpha_def)
  have "\<exists>d'. bgra_to_yuv420p sample_2x2 [0, 0, 0, 0, 0, 0] (int 2) (int 2) = Some d' \<and>
      uint (d' ! (1 * 2 + 1)) =
        ref_Y (uint (px_R sample_2x2 2 1 1)) (uint (px_G sample_2x2 2 1 1)) (uint (px_B sample_2x2 2 1 1)) \<and>
      uint (d' ! (2 * 2 + 0 * (2 div 2) + 0)) =
        ref_U (uint (px_R sample_2x2 2 (2 * 0) (2 * 0))) (uint (px_G sample_2x2 2 (2 * 0) (2 * 0)))
              (uint (px_B sample_2x2 2 (2 * 0) (2 * 0))) \<and>
      uint (d' ! (2 * 2 + (2 div 2) * (2 div 2) + 0 * (2 div 2) + 0)) =
        ref_V (uint (px_R sample_2x2 2 (2 * 0) (2 * 0))) (uint (px_G sample_2x2 2 (2 * 0) (2 * 0)))
              (uint (px_B sample_2x2 2 (2 * 0) (2 * 0))) \<and>
      bgra_to_yuv420p sample_2x2_alpha [0, 0, 0, 0, 0, 0] (int 2) (int 2) = Some d'"
    using bgra_to_yuv420p_reference [OF h(1) h(1) h(2) h(3) h(4)]
    apply (elim exE conjE)
    subgoal for d'
      apply (rule exI [of _ d'])
      apply (intro conjI)
          apply assumption
         apply (drule spec [of _ 1], drule spec [of _ 1], erule mp, simp)
        apply (drule spec [of _ 0], drule spec [of _ 0], drule mp, simp, erule conjunct1)
       apply (drule spec [of _ 0], drule spec [of _ 0], drule mp, simp, erule conjunct2)
      apply (drule spec [of _ sample_2x2_alpha], erule mp, rule conjI [OF l sample_alpha_agree])
      done
    done
  with h show ?thesis by (intro conjI)
qed

subsection \<open>The plane layout\<close>

text \<open>
  Claim C4. For even dimensions the output is the luma plane (\<open>w * h\<close> bytes, pixel
  \<open>(j, i)\<close> at offset \<open>j * w + i\<close>), then the chroma-blue plane, then the chroma-red
  plane (each \<open>(w div 2) * (h div 2)\<close> bytes, block \<open>(cj, ci)\<close> at offset
  \<open>cj * (w div 2) + ci\<close>); together \<open>w * h + 2 * (w div 2) * (h div 2) = w * h * 3 div 2\<close>
  bytes, and whatever \<open>dst\<close> holds behind them is left as it was.
\<close>

theorem bgra_to_yuv420p_layout:
  assumes ev: "even w" "even h"
    and src: "4 * (w * h) \<le> length src"
    and im: "int (4 * (w * h)) \<le> INT_MAX"
    and dl: "w * h * 3 div 2 \<le> length dst"
  shows "bgra_to_yuv420p src dst (int w) (int h) =
      Some (luma_plane src w h @ cb_plane src w h @ cr_plane src w h @ drop (w * h * 3 div 2) dst) \<and>
    length (luma_plane src w h) = w * h \<and>
    length (cb_plane src w h) = (w div 2) * (h div 2) \<and>
    length (cr_plane src w h) = (w div 2) * (h div 2) \<and>
    w * h + 2 * ((w div 2) * (h div 2)) = w * h * 3 div 2 \<and>
    (\<forall>j i. j < h \<and> i < w \<longrightarrow> luma_plane src w h ! (j * w + i) = y_at src w j i) \<and>
    (\<forall>cj ci. cj < h div 2 \<and> ci < w div 2 \<longrightarrow>
       cb_plane src w h ! (cj * (w div 2) + ci) = u_at src w (2 * cj) (2 * ci) \<and>
       cr_plane src w h ! (cj * (w div 2) + ci) = v_at src w (2 * cj) (2 * ci))"
proof -
  have sz: "w * h + 2 * ((w div 2) * (h div 2)) = w * h * 3 div 2"
    using ev by (rule frame_size_even)
  have dl': "w * h + 2 * ((w div 2) * (h div 2)) \<le> length dst"
    using dl by (simp only: sz)
  have run: "bgra_to_yuv420p src dst (int w) (int h) =
      Some (luma_plane src w h @ cb_plane src w h @ cr_plane src w h @ drop (w * h * 3 div 2) dst)"
    using bgra_to_yuv420p_planes [OF ev src im dl'] by (simp only: sz)
  have ly: "length (luma_plane src w h) = w * h"
    by (simp add: luma_plane_def)
  have lu: "length (cb_plane src w h) = (w div 2) * (h div 2)"
    by (simp add: cb_plane_def)
  have lv: "length (cr_plane src w h) = (w div 2) * (h div 2)"
    by (simp add: cr_plane_def)
  have Y: "luma_plane src w h ! (j * w + i) = y_at src w j i" if "j < h \<and> i < w" for j i
  proof -
    have "j * w + i < w * h" using that by (intro idx_lt) simp_all
    then show ?thesis using that by (simp add: luma_plane_def)
  qed
  have UV: "cb_plane src w h ! (cj * (w div 2) + ci) = u_at src w (2 * cj) (2 * ci) \<and>
       cr_plane src w h ! (cj * (w div 2) + ci) = v_at src w (2 * cj) (2 * ci)"
    if "cj < h div 2 \<and> ci < w div 2" for cj ci
  proof -
    have "cj * (w div 2) + ci < (w div 2) * (h div 2)" using that by (intro idx_lt) simp_all
    then show ?thesis using that by (simp add: cb_plane_def cr_plane_def)
  qed
  show ?thesis
    apply (intro conjI allI impI)
           apply (rule run)
          apply (rule ly)
         apply (rule lu)
        apply (rule lv)
       apply (rule sz)
      apply (erule Y)
     apply (erule UV [THEN conjunct1])
    apply (erule UV [THEN conjunct2])
    done
qed

text \<open>The theorem at a 2x2 frame and a destination of seven bytes.\<close>

theorem bgra_to_yuv420p_layout_witness:
  "even (2::nat) \<and> 4 * (2 * 2) \<le> length sample_2x2 \<and> int (4 * (2 * 2)) \<le> INT_MAX \<and>
   (2::nat) * 2 * 3 div 2 \<le> length [7, 7, 7, 7, 7, 7, 7 :: byte] \<and>
   bgra_to_yuv420p sample_2x2 [7, 7, 7, 7, 7, 7, 7] (int 2) (int 2) =
     Some (luma_plane sample_2x2 2 2 @ cb_plane sample_2x2 2 2 @ cr_plane sample_2x2 2 2 @
           drop (2 * 2 * 3 div 2) [7, 7, 7, 7, 7, 7, 7]) \<and>
   length (luma_plane sample_2x2 2 2) = 2 * 2 \<and>
   length (cb_plane sample_2x2 2 2) = (2 div 2) * (2 div 2) \<and>
   length (cr_plane sample_2x2 2 2) = (2 div 2) * (2 div 2)"
proof -
  have h: "even (2::nat)" "4 * (2 * 2) \<le> length sample_2x2" "int (4 * (2 * 2)) \<le> INT_MAX"
    "(2::nat) * 2 * 3 div 2 \<le> length [7, 7, 7, 7, 7, 7, 7 :: byte]"
    by (simp_all add: sample_2x2_def INT_MAX_def)
  note t = bgra_to_yuv420p_layout [OF h(1) h(1) h(2) h(3) h(4)]
  show ?thesis
    apply (intro conjI)
           apply (rule h(1))
          apply (rule h(2))
         apply (rule h(3))
        apply (rule h(4))
       apply (rule t [THEN conjunct1])
      apply (rule t [THEN conjunct2, THEN conjunct1])
     apply (rule t [THEN conjunct2, THEN conjunct2, THEN conjunct1])
    apply (rule t [THEN conjunct2, THEN conjunct2, THEN conjunct2, THEN conjunct1])
    done
qed

section \<open>Proofs for vcam.c and vcam_win.c\<close>

lemma frame_size_of_eq:
  assumes "0 \<le> width" "width \<le> INT_MAX" "0 \<le> height" "height \<le> INT_MAX"
  shows "frame_size_of width height = nat (width * height * 3 div 2)"
proof -
  have w: "width < 2 ^ 31" and h: "height < 2 ^ 31"
    using assms by (simp_all add: INT_MAX_def)
  have "width * height \<le> (2 ^ 31 - 1) * (2 ^ 31 - 1)"
    using assms w h by (intro mult_mono) simp_all
  then have p: "width * height * 3 < 2 ^ 64" "0 \<le> width * height"
    using assms by simp_all
  have sw: "size_t_of_int width = nat width" and sh: "size_t_of_int height = nat height"
    using assms w h by (simp_all add: size_t_of_int_def)
  have n: "nat width * nat height = nat (width * height)"
    using assms by (simp add: nat_mult_distrib)
  have lt: "nat (width * height) * 3 < 2 ^ 64"
    using p by (simp add: nat_less_iff)
  then have lt': "nat (width * height) < 2 ^ 64" by simp
  have "frame_size_of width height = nat (width * height) * 3 div 2"
    unfolding frame_size_of_def sw sh n using lt lt' by simp
  also have "\<dots> = nat (width * height * 3 div 2)"
    using p(2) by (simp add: nat_div_distrib nat_mult_distrib)
  finally show ?thesis .
qed

lemma write_loop_done [simp]:
  "\<not> written < frame_size \<Longrightarrow> write_loop frame_size buf written tr out = (Some 0, out, tr)"
  by (simp add: write_loop.simps)

lemma write_loop_Nil [simp]:
  "written < frame_size \<Longrightarrow> write_loop frame_size buf written [] out = (None, out, [])"
  by (simp add: write_loop.simps)

lemma write_loop_EINTR [simp]:
  "written < frame_size \<Longrightarrow>
   write_loop frame_size buf written (Failed EINTR # tr) out = write_loop frame_size buf written tr out"
  by (simp add: write_loop.simps)

lemma write_loop_error [simp]:
  "written < frame_size \<Longrightarrow> e \<noteq> EINTR \<Longrightarrow>
   write_loop frame_size buf written (Failed e # tr) out = (Some (- 1), out, tr)"
  by (simp add: write_loop.simps)

lemma write_loop_Wrote [simp]:
  "written < frame_size \<Longrightarrow>
   write_loop frame_size buf written (Wrote k # tr) out =
     write_loop frame_size buf (written + min k (frame_size - written)) tr
       (out @ take (min k (frame_size - written)) (drop written buf))"
  by (simp add: write_loop.simps Let_def)

text \<open>What has reached the descriptor is always a prefix of the frame.\<close>

lemma write_loop_prefix:
  assumes "write_loop fs buf written tr out = (r, out', tr')"
    and "written \<le> fs" and "fs \<le> length buf" and "out = out0 @ take written buf"
  shows "(r = Some 0 \<longrightarrow> out' = out0 @ take fs buf) \<and>
         (r = Some 0 \<or> r = Some (- 1) \<or> r = None) \<and>
         (\<exists>m. m \<le> fs \<and> out' = out0 @ take m buf)"
  using assms
proof (induction tr arbitrary: written out)
  case Nil
  then have "\<exists>m. m \<le> fs \<and> out = out0 @ take m buf" by blast
  with Nil show ?case by (cases "written < fs") auto
next
  case (Cons e tr)
  from Cons.prems have base: "\<exists>m. m \<le> fs \<and> out = out0 @ take m buf" by blast
  show ?case
  proof (cases "written < fs")
    case False
    with Cons.prems base show ?thesis by auto
  next
    case True
    show ?thesis
    proof (cases e)
      case (Failed x)
      show ?thesis
      proof (cases "x = EINTR")
        case True
        with \<open>written < fs\<close> Failed Cons.prems Cons.IH [of written out] show ?thesis by simp
      next
        case False
        with \<open>written < fs\<close> Failed Cons.prems base show ?thesis by auto
      qed
    next
      case (Wrote k)
      define n where "n = min k (fs - written)"
      have step: "write_loop fs buf (written + n) tr (out @ take n (drop written buf)) = (r, out', tr')"
        using True Wrote Cons.prems(1) by (simp add: n_def)
      have le: "written + n \<le> fs" using True by (simp add: n_def)
      have "take written buf @ take n (drop written buf) = take (written + n) buf"
        by (simp add: take_add)
      then have out: "out @ take n (drop written buf) = out0 @ take (written + n) buf"
        using Cons.prems(4) by simp
      from Cons.IH [OF step le Cons.prems(3) out] show ?thesis .
    qed
  qed
qed

lemma write_loop_filter_EINTR:
  "fst (write_loop fs buf written (filter (\<lambda>e. e \<noteq> Failed EINTR) tr) out) =
     fst (write_loop fs buf written tr out) \<and>
   fst (snd (write_loop fs buf written (filter (\<lambda>e. e \<noteq> Failed EINTR) tr) out)) =
     fst (snd (write_loop fs buf written tr out))"
proof (induction tr arbitrary: written out)
  case Nil
  show ?case by simp
next
  case (Cons e tr)
  show ?case
  proof (cases "written < fs")
    case False
    then show ?thesis by simp
  next
    case True
    show ?thesis
    proof (cases e)
      case (Wrote k)
      with True Cons.IH show ?thesis by simp
    next
      case (Failed x)
      with True Cons.IH show ?thesis by (cases "x = EINTR") simp_all
    qed
  qed
qed

lemma write_loop_progress:
  "fs - written \<le> sum_list ks \<Longrightarrow> fst (write_loop fs buf written (map Wrote ks) out) = Some 0"
proof (induction ks arbitrary: written out)
  case Nil
  then show ?case by simp
next
  case (Cons k ks)
  show ?case
  proof (cases "written < fs")
    case False
    then show ?thesis by simp
  next
    case True
    have "fs - (written + min k (fs - written)) \<le> sum_list ks"
      using Cons.prems by (cases "k \<le> fs - written") (simp_all add: min_def)
    from Cons.IH [OF this] show ?thesis using True by simp
  qed
qed

lemma write_loop_hard_error:
  "write_loop fs buf written tr out = (None, out1, tr1) \<Longrightarrow> e \<noteq> EINTR \<Longrightarrow>
   write_loop fs buf written (tr @ Failed e # rest) out = (Some (- 1), out1, rest)"
proof (induction tr arbitrary: written out)
  case Nil
  then show ?case by (cases "written < fs") simp_all
next
  case (Cons x tr)
  show ?case
  proof (cases "written < fs")
    case False
    with Cons.prems show ?thesis by simp
  next
    case True
    show ?thesis
    proof (cases x)
      case (Wrote k)
      with True Cons show ?thesis by simp
    next
      case (Failed y)
      with True Cons show ?thesis by (cases "y = EINTR") simp_all
    qed
  qed
qed

lemma write_loop_win_eq:
  "fs < 2 ^ 32 \<Longrightarrow> write_loop_win fs buf written tr out = write_loop fs buf written tr out"
proof (induction tr arbitrary: written out)
  case Nil
  show ?case by (simp add: write_loop_win.simps write_loop.simps)
next
  case (Cons x tr)
  have "fs - written < 2 ^ 32"
    using Cons.prems by (rule le_less_trans [rotated]) simp
  then have m: "(fs - written) mod 4294967296 = fs - written"
    by simp
  show ?case
    by (subst write_loop_win.simps, subst write_loop.simps)
       (simp add: Cons.IH [OF Cons.prems] m split: write_res.split)
qed

text \<open>
  Claim C5. A sink opened for \<open>width\<close> x \<open>height\<close> (on either platform) that is given
  \<open>len < width * height * 3 / 2\<close> returns \<open>-1\<close>, with the bytes at the descriptor as
  they were and no \<^verbatim>\<open>write\<close> call made (no answer of the descriptor is used up).
\<close>

theorem vcam_write_short_frame:
  assumes "0 \<le> width" "width \<le> INT_MAX" "0 \<le> height" "height \<le> INT_MAX"
    and "int len < width * height * 3 div 2"
  shows "(\<forall>ctx. vcam_open calloc_ok open_ret ioctl_ret device width height = Some ctx \<longrightarrow>
            vcam_write ctx buf len tr out = (Some (- 1), out, tr)) \<and>
         (\<forall>ctx. vcam_open_win calloc_ok stdout_fd setmode_ret open_ret' device' width height = Some ctx \<longrightarrow>
            vcam_write_win ctx buf len tr out = (Some (- 1), out, tr))"
proof -
  have "frame_size_of width height = nat (width * height * 3 div 2)"
    using assms(1-4) by (rule frame_size_of_eq)
  then have lt: "len < frame_size_of width height"
    using assms(5) by simp
  have a: "vcam_write ctx buf len tr out = (Some (- 1), out, tr)"
    if "vcam_open calloc_ok open_ret ioctl_ret device width height = Some ctx" for ctx
  proof -
    from that have "vc_frame_size ctx = frame_size_of width height"
      by (auto simp: vcam_open_def split: if_splits)
    with lt show ?thesis by (simp add: vcam_write_def)
  qed
  have b: "vcam_write_win ctx buf len tr out = (Some (- 1), out, tr)"
    if "vcam_open_win calloc_ok stdout_fd setmode_ret open_ret' device' width height = Some ctx" for ctx
  proof -
    from that have "vw_frame_size ctx = frame_size_of width height"
      by (auto simp: vcam_open_win_def split: if_splits)
    with lt show ?thesis by (simp add: vcam_write_win_def)
  qed
  from a b show ?thesis by blast
qed

text \<open>The theorem at a 2x2 sink (frame size 6) and \<open>len = 5\<close>.\<close>

theorem vcam_write_short_frame_witness:
  "(0::int) \<le> 2 \<and> (2::int) \<le> INT_MAX \<and> int 5 < 2 * 2 * 3 div 2 \<and>
   vcam_open True 3 0 ''/dev/video10'' 2 2 = Some cam_2x2 \<and>
   vcam_write cam_2x2 frame_123456 5 [Wrote 6] [] = (Some (- 1), [], [Wrote 6]) \<and>
   vcam_open_win True 1 0 0 ''-'' 2 2 = Some cam_win_2x2 \<and>
   vcam_write_win cam_win_2x2 frame_123456 5 [Wrote 6] [] = (Some (- 1), [], [Wrote 6])"
proof -
  have h: "(0::int) \<le> 2" "(2::int) \<le> INT_MAX" "int 5 < 2 * 2 * 3 div 2"
    by (simp_all add: INT_MAX_def)
  have o: "vcam_open True 3 0 ''/dev/video10'' 2 2 = Some cam_2x2"
    by (simp add: vcam_open_def cam_2x2_def frame_size_of_def size_t_of_int_def)
  have ow: "vcam_open_win True 1 0 0 ''-'' 2 2 = Some cam_win_2x2"
    by (simp add: vcam_open_win_def cam_win_2x2_def frame_size_of_def size_t_of_int_def)
  note t = vcam_write_short_frame [where width = 2 and height = 2 and len = 5
      and calloc_ok = True and open_ret = 3 and ioctl_ret = 0 and device = "''/dev/video10''"
      and buf = frame_123456 and tr = "[Wrote 6]" and out = "[]"
      and stdout_fd = 1 and setmode_ret = 0 and open_ret' = 0 and device' = "''-''",
      OF h(1) h(2) h(1) h(2) h(3)]
  from t [THEN conjunct1, rule_format, OF o] t [THEN conjunct2, rule_format, OF ow] h o ow
  show ?thesis by (intro conjI)
qed

text \<open>
  The write loop of a sink with any frame size: what a returning call has written, the
  interrupted calls, the partial writes, the hard errors, and the Windows loop.
\<close>

lemma vcam_write_loop_props:
  assumes "vc_frame_size ctx \<le> len" "len \<le> length buf"
  shows "(\<forall>r out' tr'. vcam_write ctx buf len tr out = (r, out', tr') \<longrightarrow>
            (r = Some 0 \<or> r = Some (- 1) \<or> r = None) \<and>
            (r = Some 0 \<longrightarrow> out' = out @ take (vc_frame_size ctx) buf)) \<and>
         fst (vcam_write ctx buf len (filter (\<lambda>e. e \<noteq> Failed EINTR) tr) out) =
           fst (vcam_write ctx buf len tr out) \<and>
         fst (snd (vcam_write ctx buf len (filter (\<lambda>e. e \<noteq> Failed EINTR) tr) out)) =
           fst (snd (vcam_write ctx buf len tr out)) \<and>
         (\<forall>ks. vc_frame_size ctx \<le> sum_list ks \<longrightarrow>
            fst (vcam_write ctx buf len (map Wrote ks) out) = Some 0) \<and>
         (\<forall>e out1 rest. vcam_write ctx buf len tr out = (None, out1, []) \<and> e \<noteq> EINTR \<longrightarrow>
            vcam_write ctx buf len (tr @ Failed e # rest) out = (Some (- 1), out1, rest)) \<and>
         (\<forall>cw. vw_frame_size cw = vc_frame_size ctx \<and> vc_frame_size ctx < 2 ^ 31 \<longrightarrow>
            vcam_write_win cw buf len tr out = vcam_write ctx buf len tr out)"
proof -
  have nl: "\<not> len < vc_frame_size ctx" using assms(1) by simp
  have fl: "vc_frame_size ctx \<le> length buf" using assms by simp
  have run: "vcam_write ctx buf len t out = write_loop (vc_frame_size ctx) buf 0 t out" for t
    using nl by (simp add: vcam_write_def)
  have p1: "(r = Some 0 \<or> r = Some (- 1) \<or> r = None) \<and>
            (r = Some 0 \<longrightarrow> out' = out @ take (vc_frame_size ctx) buf)"
    if "vcam_write ctx buf len tr out = (r, out', tr')" for r out' tr'
    using write_loop_prefix [of "vc_frame_size ctx" buf 0 tr out r out' tr' out] that fl
    by (simp add: run)
  have p4: "fst (vcam_write ctx buf len (map Wrote ks) out) = Some 0"
    if "vc_frame_size ctx \<le> sum_list ks" for ks
    using that by (simp add: run write_loop_progress)
  have p5: "vcam_write ctx buf len (tr @ Failed e # rest) out = (Some (- 1), out1, rest)"
    if "vcam_write ctx buf len tr out = (None, out1, []) \<and> e \<noteq> EINTR" for e out1 rest
    using that by (simp add: run write_loop_hard_error)
  have p6: "vcam_write_win cw buf len tr out = vcam_write ctx buf len tr out"
    if "vw_frame_size cw = vc_frame_size ctx \<and> vc_frame_size ctx < 2 ^ 31" for cw
  proof -
    from that have "vc_frame_size ctx < 2 ^ 32" by simp
    with that nl show ?thesis
      by (simp add: run vcam_write_win_def write_loop_win_eq)
  qed
  show ?thesis
    apply (intro conjI allI impI)
          apply (erule p1 [THEN conjunct1])
         apply (drule p1 [THEN conjunct2], erule (1) mp)
        apply (simp add: run write_loop_filter_EINTR)
       apply (simp add: run write_loop_filter_EINTR)
      apply (erule p4)
     apply (erule p5)
    apply (erule p6)
    done
qed

lemma vcam_open_frame_size:
  "vcam_open calloc_ok open_ret ioctl_ret device width height = Some ctx \<Longrightarrow>
   vc_frame_size ctx = frame_size_of width height"
  by (auto simp: vcam_open_def split: if_splits)

lemma vcam_open_win_frame_size:
  "vcam_open_win calloc_ok stdout_fd setmode_ret open_ret device width height = Some ctx \<Longrightarrow>
   vw_frame_size ctx = frame_size_of width height"
  by (auto simp: vcam_open_win_def split: if_splits)

text \<open>
  Claim C6. For a sink that \<^verbatim>\<open>vcam_open\<close> opened for \<open>width\<close> x \<open>height\<close>, the frame
  size is \<open>width * height * 3 / 2\<close>. With \<open>len\<close> at least that: a call that returns does so
  with 0 or \<open>-1\<close>, and when it returns 0 exactly the first \<open>width * height * 3 / 2\<close> bytes
  of the buffer have been added at the descriptor, whatever \<open>len\<close> is; the interrupted
  calls (\<open>EINTR\<close>) make no difference to the return value or to the bytes written; partial
  writes are continued until the frame is complete; any other error ends the call with
  \<open>-1\<close>; and a sink that \<^verbatim>\<open>vcam_open\<close> of vcam_win.c opened for the same dimensions has
  the same frame size and does the same, for a frame below \<open>2 ^ 31\<close> bytes.
\<close>

theorem vcam_write_whole_frame:
  assumes op: "vcam_open calloc_ok open_ret ioctl_ret device width height = Some ctx"
    and dims: "0 \<le> width" "width \<le> INT_MAX" "0 \<le> height" "height \<le> INT_MAX"
    and len: "nat (width * height * 3 div 2) \<le> len" "len \<le> length buf"
  shows "vc_frame_size ctx = nat (width * height * 3 div 2) \<and>
         (\<forall>r out' tr'. vcam_write ctx buf len tr out = (r, out', tr') \<longrightarrow>
            (r = Some 0 \<or> r = Some (- 1) \<or> r = None) \<and>
            (r = Some 0 \<longrightarrow>
               out' = out @ take (nat (width * height * 3 div 2)) buf \<and>
               length out' = length out + nat (width * height * 3 div 2))) \<and>
         fst (vcam_write ctx buf len (filter (\<lambda>e. e \<noteq> Failed EINTR) tr) out) =
           fst (vcam_write ctx buf len tr out) \<and>
         fst (snd (vcam_write ctx buf len (filter (\<lambda>e. e \<noteq> Failed EINTR) tr) out)) =
           fst (snd (vcam_write ctx buf len tr out)) \<and>
         (\<forall>ks. nat (width * height * 3 div 2) \<le> sum_list ks \<longrightarrow>
            fst (vcam_write ctx buf len (map Wrote ks) out) = Some 0) \<and>
         (\<forall>e out1 rest. vcam_write ctx buf len tr out = (None, out1, []) \<and> e \<noteq> EINTR \<longrightarrow>
            vcam_write ctx buf len (tr @ Failed e # rest) out = (Some (- 1), out1, rest)) \<and>
         (\<forall>cw. vcam_open_win calloc_ok' stdout_fd setmode_ret open_ret' device' width height = Some cw \<and>
               width * height * 3 div 2 < 2 ^ 31 \<longrightarrow>
            vw_frame_size cw = nat (width * height * 3 div 2) \<and>
            vcam_write_win cw buf len tr out = vcam_write ctx buf len tr out)"
proof -
  have fs: "frame_size_of width height = nat (width * height * 3 div 2)"
    using dims by (rule frame_size_of_eq)
  have sz: "vc_frame_size ctx = nat (width * height * 3 div 2)"
    using vcam_open_frame_size [OF op] fs by simp
  have h: "vc_frame_size ctx \<le> len" "len \<le> length buf"
    using len sz by simp_all
  note L = vcam_write_loop_props [OF h, where tr = tr and out = out]
  have p1: "(r = Some 0 \<or> r = Some (- 1) \<or> r = None) \<and>
            (r = Some 0 \<longrightarrow>
               out' = out @ take (nat (width * height * 3 div 2)) buf \<and>
               length out' = length out + nat (width * height * 3 div 2))"
    if a: "vcam_write ctx buf len tr out = (r, out', tr')" for r out' tr'
  proof -
    from L [THEN conjunct1, rule_format, OF a]
    have b: "r = Some 0 \<or> r = Some (- 1) \<or> r = None"
      and c: "r = Some 0 \<longrightarrow> out' = out @ take (nat (width * height * 3 div 2)) buf"
      by (simp_all add: sz)
    have "length (take (nat (width * height * 3 div 2)) buf) = nat (width * height * 3 div 2)"
      using len by simp
    with b c show ?thesis by auto
  qed
  have p2: "fst (vcam_write ctx buf len (filter (\<lambda>e. e \<noteq> Failed EINTR) tr) out) =
           fst (vcam_write ctx buf len tr out)"
    by (rule L [THEN conjunct2, THEN conjunct1])
  have p3: "fst (snd (vcam_write ctx buf len (filter (\<lambda>e. e \<noteq> Failed EINTR) tr) out)) =
           fst (snd (vcam_write ctx buf len tr out))"
    by (rule L [THEN conjunct2, THEN conjunct2, THEN conjunct1])
  have p4: "fst (vcam_write ctx buf len (map Wrote ks) out) = Some 0"
    if "nat (width * height * 3 div 2) \<le> sum_list ks" for ks
    using L [THEN conjunct2, THEN conjunct2, THEN conjunct2, THEN conjunct1, rule_format, of ks] that
    by (simp add: sz)
  have p5: "vcam_write ctx buf len (tr @ Failed e # rest) out = (Some (- 1), out1, rest)"
    if "vcam_write ctx buf len tr out = (None, out1, []) \<and> e \<noteq> EINTR" for e out1 rest
    using L [THEN conjunct2, THEN conjunct2, THEN conjunct2, THEN conjunct2, THEN conjunct1,
        rule_format, OF that] .
  have p6: "vw_frame_size cw = nat (width * height * 3 div 2) \<and>
            vcam_write_win cw buf len tr out = vcam_write ctx buf len tr out"
    if a: "vcam_open_win calloc_ok' stdout_fd setmode_ret open_ret' device' width height = Some cw \<and>
           width * height * 3 div 2 < 2 ^ 31" for cw
  proof -
    from a have "vcam_open_win calloc_ok' stdout_fd setmode_ret open_ret' device' width height = Some cw"
      by (rule conjunct1)
    then have "vw_frame_size cw = frame_size_of width height"
      by (rule vcam_open_win_frame_size)
    then have w: "vw_frame_size cw = nat (width * height * 3 div 2)"
      by (simp only: fs)
    from a have "width * height * 3 div 2 < 2147483648"
      by simp
    then have "nat (width * height * 3 div 2) < 2147483648"
      by linarith
    then have "nat (width * height * 3 div 2) < 2 ^ 31"
      by simp
    then have "vw_frame_size cw = vc_frame_size ctx \<and> vc_frame_size ctx < 2 ^ 31"
      using w sz by simp
    from L [THEN conjunct2, THEN conjunct2, THEN conjunct2, THEN conjunct2, THEN conjunct2,
        rule_format, OF this] w
    show ?thesis by simp
  qed
  show ?thesis
    apply (intro conjI allI impI)
            apply (rule sz)
           apply (erule p1 [THEN conjunct1])
          apply (drule p1 [THEN conjunct2], drule (1) mp, erule conjunct1)
         apply (drule p1 [THEN conjunct2], drule (1) mp, erule conjunct2)
        apply (rule p2)
       apply (rule p3)
      apply (erule p4)
     apply (erule p5)
    apply (erule p6 [THEN conjunct1])
    apply (erule p6 [THEN conjunct2])
    done
qed

lemma open_cam_2x2: "vcam_open True 3 0 ''/dev/video10'' 2 2 = Some cam_2x2"
  by (simp add: vcam_open_def cam_2x2_def frame_size_of_def size_t_of_int_def)

lemma open_cam_win_2x2: "vcam_open_win True 1 0 0 ''-'' 2 2 = Some cam_win_2x2"
  by (simp add: vcam_open_win_def cam_win_2x2_def frame_size_of_def size_t_of_int_def)

text \<open>
  The theorem at the sinks \<^verbatim>\<open>vcam_open\<close> gives for 2x2 pixels (six bytes a frame) and a
  buffer of seven bytes: a partial write, an interrupted call and two more writes deliver
  the first six bytes; a broken pipe (\<^verbatim>\<open>errno\<close> 32) after the first two bytes returns
  \<open>-1\<close>.
\<close>

theorem vcam_write_whole_frame_witness:
  "vcam_open True 3 0 ''/dev/video10'' 2 2 = Some cam_2x2 \<and>
   (0::int) \<le> 2 \<and> (2::int) \<le> INT_MAX \<and>
   nat (2 * 2 * 3 div 2) \<le> 7 \<and> 7 \<le> length long_1234567 \<and>
   vc_frame_size cam_2x2 = nat (2 * 2 * 3 div 2) \<and>
   vcam_write cam_2x2 long_1234567 7 [Wrote 2, Failed EINTR, Wrote 3, Wrote 9] [] =
     (Some 0, [1, 2, 3, 4, 5, 6], []) \<and>
   [1, 2, 3, 4, 5, 6] = [] @ take (nat (2 * 2 * 3 div 2)) long_1234567 \<and>
   length [1, 2, 3, 4, 5, 6 :: byte] = length ([] :: byte list) + nat (2 * 2 * 3 div 2) \<and>
   fst (vcam_write cam_2x2 long_1234567 7 (map Wrote [2, 3, 9]) []) = Some 0 \<and>
   vcam_write cam_2x2 long_1234567 7 [Wrote 2, Failed EINTR] [] = (None, [1, 2], []) \<and>
   vcam_write cam_2x2 long_1234567 7 ([Wrote 2, Failed EINTR] @ Failed 32 # [Wrote 9]) [] =
     (Some (- 1), [1, 2], [Wrote 9]) \<and>
   vcam_open_win True 1 0 0 ''-'' 2 2 = Some cam_win_2x2 \<and>
   vw_frame_size cam_win_2x2 = nat (2 * 2 * 3 div 2) \<and>
   vcam_write_win cam_win_2x2 long_1234567 7 [Wrote 2, Failed EINTR, Wrote 3, Wrote 9] [] =
     (Some 0, [1, 2, 3, 4, 5, 6], [])"
proof -
  have d: "(0::int) \<le> 2" "(2::int) \<le> INT_MAX"
    by (simp_all add: INT_MAX_def)
  have l: "nat (2 * 2 * 3 div 2) \<le> 7" "7 \<le> length long_1234567"
    by (simp_all add: long_1234567_def)
  have r1: "vcam_write cam_2x2 long_1234567 7 [Wrote 2, Failed EINTR, Wrote 3, Wrote 9] [] =
     (Some 0, [1, 2, 3, 4, 5, 6], [])"
    by (simp add: vcam_write_def cam_2x2_def long_1234567_def)
  have r2: "vcam_write cam_2x2 long_1234567 7 [Wrote 2, Failed EINTR] [] = (None, [1, 2], [])"
    by (simp add: vcam_write_def cam_2x2_def long_1234567_def)
  have ne: "(32::int) \<noteq> EINTR" by (simp add: EINTR_def)
  have w: "vcam_open_win True 1 0 0 ''-'' 2 2 = Some cam_win_2x2 \<and> (2::int) * 2 * 3 div 2 < 2 ^ 31"
    using open_cam_win_2x2 by simp
  note t = vcam_write_whole_frame [OF open_cam_2x2 d(1) d(2) d(1) d(2) l,
      where tr = "[Wrote 2, Failed EINTR, Wrote 3, Wrote 9]" and out = "[]"
      and calloc_ok' = True and stdout_fd = 1 and setmode_ret = 0 and open_ret' = 0
      and device' = "''-''"]
  note t' = vcam_write_whole_frame [OF open_cam_2x2 d(1) d(2) d(1) d(2) l,
      where tr = "[Wrote 2, Failed EINTR]" and out = "[]"]
  note s1 = t [THEN conjunct2, THEN conjunct1, rule_format, OF r1, THEN conjunct2, rule_format, OF refl]
  have c0: "vc_frame_size cam_2x2 = nat (2 * 2 * 3 div 2)"
    by (rule t [THEN conjunct1])
  have c1: "[1, 2, 3, 4, 5, 6] = [] @ take (nat (2 * 2 * 3 div 2)) long_1234567"
    by (rule s1 [THEN conjunct1])
  have c1': "length [1, 2, 3, 4, 5, 6 :: byte] = length ([] :: byte list) + nat (2 * 2 * 3 div 2)"
    by (rule s1 [THEN conjunct2])
  have c2: "fst (vcam_write cam_2x2 long_1234567 7 (map Wrote [2, 3, 9]) []) = Some 0"
    by (rule t [THEN conjunct2, THEN conjunct2, THEN conjunct2, THEN conjunct2, THEN conjunct1,
        rule_format]) simp
  have c3: "vcam_write cam_2x2 long_1234567 7 ([Wrote 2, Failed EINTR] @ Failed 32 # [Wrote 9]) [] =
     (Some (- 1), [1, 2], [Wrote 9])"
    by (rule t' [THEN conjunct2, THEN conjunct2, THEN conjunct2, THEN conjunct2, THEN conjunct2,
        THEN conjunct1, rule_format, OF conjI [OF r2 ne]])
  note s6 = t [THEN conjunct2, THEN conjunct2, THEN conjunct2, THEN conjunct2, THEN conjunct2,
        THEN conjunct2, rule_format, OF w]
  have c4: "vw_frame_size cam_win_2x2 = nat (2 * 2 * 3 div 2)"
    by (rule s6 [THEN conjunct1])
  have c5: "vcam_write_win cam_win_2x2 long_1234567 7 [Wrote 2, Failed EINTR, Wrote 3, Wrote 9] [] =
     (Some 0, [1, 2, 3, 4, 5, 6], [])"
    using s6 [THEN conjunct2] r1 by simp
  from open_cam_2x2 d l c0 r1 c1 c1' c2 r2 c3 open_cam_win_2x2 c4 c5 show ?thesis
    by (intro conjI)
qed

section \<open>Proofs for capture_win.c\<close>

lemma capture_grab_Some:
  "capture_grab ctx env = (Some frame, ctx', errs) \<Longrightarrow> frame = cw_buffer ctx' \<and> errs = []"
  by (auto simp: capture_grab_def Let_def split: if_splits)

lemma capture_grab_timeout:
  "ge_AcquireNextFrame env = DXGI_ERROR_WAIT_TIMEOUT \<Longrightarrow>
   capture_grab ctx env = (Some (cw_buffer ctx), ctx, [])"
  by (simp add: capture_grab_def)

text \<open>
  Claim C9. A \<^verbatim>\<open>capture_grab\<close> whose acquisition times out returns a pointer that is not
  \<^verbatim>\<open>NULL\<close>, to the persistent buffer, and leaves the session (the buffer with it) as it
  was; so after a call that returned a frame, a timed-out call returns the same bytes.
\<close>

theorem capture_grab_timeout_keeps_frame:
  "(ge_AcquireNextFrame env = DXGI_ERROR_WAIT_TIMEOUT \<longrightarrow>
      capture_grab ctx env = (Some (cw_buffer ctx), ctx, [])) \<and>
   (\<forall>frame ctx' errs.
      capture_grab ctx prev_env = (Some frame, ctx', errs) \<and>
      ge_AcquireNextFrame env = DXGI_ERROR_WAIT_TIMEOUT \<longrightarrow>
      capture_grab ctx' env = (Some frame, ctx', []))"
proof (intro conjI allI impI)
  assume "ge_AcquireNextFrame env = DXGI_ERROR_WAIT_TIMEOUT"
  then show "capture_grab ctx env = (Some (cw_buffer ctx), ctx, [])"
    by (rule capture_grab_timeout)
next
  fix frame ctx' errs
  assume a: "capture_grab ctx prev_env = (Some frame, ctx', errs) \<and>
      ge_AcquireNextFrame env = DXGI_ERROR_WAIT_TIMEOUT"
  then have "frame = cw_buffer ctx'"
    using capture_grab_Some by blast
  with a show "capture_grab ctx' env = (Some frame, ctx', [])"
    by (simp add: capture_grab_timeout)
qed

text \<open>The theorem on a desktop of one pixel: a new frame, then a timeout.\<close>

lemma grab_new_frame:
  "capture_grab desktop_1x1 new_frame_env =
     (Some [1, 2, 3, 4], desktop_1x1\<lparr>cw_buffer := [1, 2, 3, 4]\<rparr>, [])"
  by (simp add: capture_grab_def desktop_1x1_def new_frame_env_def DXGI_ERROR_WAIT_TIMEOUT_def
      DXGI_ERROR_ACCESS_LOST_def FAILED_def size_t_of_int_def memcpy_def Let_def upt_rec)

theorem capture_grab_timeout_keeps_frame_witness:
  "capture_grab desktop_1x1 new_frame_env =
     (Some [1, 2, 3, 4], desktop_1x1\<lparr>cw_buffer := [1, 2, 3, 4]\<rparr>, []) \<and>
   ge_AcquireNextFrame timeout_env = DXGI_ERROR_WAIT_TIMEOUT \<and>
   capture_grab (desktop_1x1\<lparr>cw_buffer := [1, 2, 3, 4]\<rparr>) timeout_env =
     (Some [1, 2, 3, 4], desktop_1x1\<lparr>cw_buffer := [1, 2, 3, 4]\<rparr>, [])"
proof -
  have t: "ge_AcquireNextFrame timeout_env = DXGI_ERROR_WAIT_TIMEOUT"
    by (simp add: timeout_env_def)
  from capture_grab_timeout_keeps_frame [where ctx = desktop_1x1 and prev_env = new_frame_env
      and env = timeout_env, THEN conjunct2, rule_format, OF conjI [OF grab_new_frame t]]
    grab_new_frame t
  show ?thesis by (intro conjI)
qed

lemma grab_all_timeouts:
  "list_all (\<lambda>e. ge_AcquireNextFrame e = DXGI_ERROR_WAIT_TIMEOUT) envs \<Longrightarrow>
   grab_all ctx envs = replicate (length envs) (Some (cw_buffer ctx))"
  by (induction envs) (simp_all add: capture_grab_timeout)

lemma capture_init_buffer:
  "capture_init ienv = Some ctx \<Longrightarrow>
   cw_buffer ctx = malloc_block (ie_heap ienv) (cw_buffer_size ctx)"
  by (auto simp: capture_init_def Let_def split: if_splits)

text \<open>
  Claim C10. \<^verbatim>\<open>capture_init\<close> takes the buffer from \<^verbatim>\<open>malloc\<close> and stores nothing in
  it, so the buffer holds what the heap held; while every acquisition times out, each
  \<^verbatim>\<open>capture_grab\<close> returns exactly these bytes, and they are not a zero-filled frame as
  soon as one of them is not 0.
\<close>

theorem capture_grab_before_first_frame:
  assumes "capture_init ienv = Some ctx"
    and "list_all (\<lambda>e. ge_AcquireNextFrame e = DXGI_ERROR_WAIT_TIMEOUT) envs"
  shows "cw_buffer ctx = malloc_block (ie_heap ienv) (cw_buffer_size ctx) \<and>
    grab_all ctx envs =
      replicate (length envs) (Some (malloc_block (ie_heap ienv) (cw_buffer_size ctx))) \<and>
    (\<forall>k. k < cw_buffer_size ctx \<and> ie_heap ienv k \<noteq> 0 \<longrightarrow>
       malloc_block (ie_heap ienv) (cw_buffer_size ctx) \<noteq> replicate (cw_buffer_size ctx) 0)"
proof -
  have b: "cw_buffer ctx = malloc_block (ie_heap ienv) (cw_buffer_size ctx)"
    using assms(1) by (rule capture_init_buffer)
  have g: "grab_all ctx envs =
      replicate (length envs) (Some (malloc_block (ie_heap ienv) (cw_buffer_size ctx)))"
    using grab_all_timeouts [OF assms(2), of ctx] by (simp only: b [symmetric])
  have n: "malloc_block (ie_heap ienv) (cw_buffer_size ctx) \<noteq> replicate (cw_buffer_size ctx) 0"
    if "k < cw_buffer_size ctx \<and> ie_heap ienv k \<noteq> 0" for k
  proof
    assume "malloc_block (ie_heap ienv) (cw_buffer_size ctx) = replicate (cw_buffer_size ctx) 0"
    then have "malloc_block (ie_heap ienv) (cw_buffer_size ctx) ! k = replicate (cw_buffer_size ctx) 0 ! k"
      by simp
    with that show False by (simp add: malloc_block_def)
  qed
  show ?thesis
    apply (intro conjI allI impI)
      apply (rule b)
     apply (rule g)
    apply (erule n)
    done
qed

text \<open>The theorem for a heap that holds 205 everywhere, after two timeouts.\<close>

lemma init_1x1_fresh: "capture_init init_1x1 = Some fresh_1x1"
  by (simp add: capture_init_def init_1x1_def fresh_1x1_def FAILED_def size_t_of_int_def
      malloc_block_def Let_def upt_rec)

theorem capture_grab_before_first_frame_witness:
  "capture_init init_1x1 = Some fresh_1x1 \<and>
   list_all (\<lambda>e. ge_AcquireNextFrame e = DXGI_ERROR_WAIT_TIMEOUT) [timeout_env, timeout_env] \<and>
   grab_all fresh_1x1 [timeout_env, timeout_env] =
     replicate (length [timeout_env, timeout_env])
       (Some (malloc_block (ie_heap init_1x1) (cw_buffer_size fresh_1x1))) \<and>
   malloc_block (ie_heap init_1x1) (cw_buffer_size fresh_1x1) = [205, 205, 205, 205] \<and>
   malloc_block (ie_heap init_1x1) (cw_buffer_size fresh_1x1) \<noteq> replicate (cw_buffer_size fresh_1x1) 0"
proof -
  have t: "list_all (\<lambda>e. ge_AcquireNextFrame e = DXGI_ERROR_WAIT_TIMEOUT) [timeout_env, timeout_env]"
    by (simp add: timeout_env_def)
  have k: "0 < cw_buffer_size fresh_1x1 \<and> ie_heap init_1x1 0 \<noteq> 0"
    by (simp add: fresh_1x1_def init_1x1_def)
  have m: "malloc_block (ie_heap init_1x1) (cw_buffer_size fresh_1x1) = [205, 205, 205, 205]"
    by (simp add: malloc_block_def init_1x1_def fresh_1x1_def upt_rec)
  note th = capture_grab_before_first_frame [OF init_1x1_fresh t]
  from th [THEN conjunct2, THEN conjunct1] th [THEN conjunct2, THEN conjunct2, rule_format, OF k]
    init_1x1_fresh t m
  show ?thesis by (intro conjI)
qed

section \<open>Proofs for main.c\<close>

lemma nanosleeps_append [simp]: "nanosleeps (xs @ ys) = nanosleeps xs @ nanosleeps ys"
  by (induction xs rule: nanosleeps.induct) simp_all

lemma nanosleeps_Stderr [simp]: "nanosleeps (map Stderr errs) = []"
  by (induction errs) simp_all

lemma to_long_signed: "0 < bits \<Longrightarrow> to_long bits x = signed_take_bit (bits - 1) x"
  by (cases bits) (simp_all add: to_long_def signed_take_bit_eq_take_bit_shift take_bit_eq_mod)

lemma to_long_id: "0 < bits \<Longrightarrow> in_long bits x \<Longrightarrow> to_long bits x = x"
proof -
  assume a: "0 < bits" "in_long bits x"
  then obtain n where n: "bits = Suc n" by (cases bits) auto
  have "0 \<le> x + 2 ^ n" "x + 2 ^ n < 2 ^ Suc n"
    using a(2) by (simp_all add: n in_long_def)
  then have "(x + 2 ^ n) mod 2 ^ Suc n = x + 2 ^ n"
    by (rule mod_pos_pos_trivial)
  then show ?thesis by (simp add: to_long_def n)
qed

lemma signed_take_bit_mult_left:
  "signed_take_bit n (signed_take_bit n a * c) = signed_take_bit n (a * (c::int))"
  by (metis signed_take_bit_mult signed_take_bit_signed_take_bit min.idem)

text \<open>Wrapping every operation gives the wrapped time between the readings.\<close>

lemma elapsed_ns_wrap:
  "0 < bits \<Longrightarrow> elapsed_ns bits t0 t1 = to_long bits (clock_diff_ns t0 t1)"
  by (simp add: elapsed_ns_def clock_diff_ns_def to_long_signed signed_take_bit_mult_left
      signed_take_bit_add)

text \<open>
  Where the time between the readings and its difference from the frame interval fit
  \<^verbatim>\<open>long\<close>, as they always do with 64 bits, the pacing step asks for
  \<open>max 0 (frame_ns - elapsed)\<close>.
\<close>

lemma nanosleeps_pace:
  assumes "0 < bits" "in_long bits (clock_diff_ns t0 t1)"
    and "in_long bits (frame_ns - clock_diff_ns t0 t1)"
  shows "nanosleeps (pace bits frame_ns t0 t1) =
     (if clock_diff_ns t0 t1 < frame_ns then [frame_ns - clock_diff_ns t0 t1] else [])"
  using assms by (simp add: pace_def Let_def elapsed_ns_wrap to_long_id)

lemma loop_body_access_lost:
  "loop_body (windows_platform ienv calloc_ok stdout_fd setmode_ret open_ret) cam w h yuv_size fps
     frame_ns access_lost_pass st =
   (None, st\<lparr>ls_log := ls_log st @ access_lost_events\<rparr>)"
  by (simp add: loop_body_def windows_platform_def access_lost_pass_def access_lost_env_def
      capture_grab_def DXGI_ERROR_ACCESS_LOST_def DXGI_ERROR_WAIT_TIMEOUT_def
      access_lost_events_def)

text \<open>
  Claim C1, at the input where the code departs from it. When the duplication is lost,
  \<^verbatim>\<open>capture_grab\<close> returns \<^verbatim>\<open>NULL\<close> as for any other failure, and the loop prints
  its retry line, sleeps 100 ms and grabs again on the same session: after any number of
  such passes the loop is still running.
\<close>

theorem access_lost_is_retried:
  "main_loop (windows_platform ienv calloc_ok stdout_fd setmode_ret open_ret) cam w h yuv_size fps
     frame_ns (replicate n access_lost_pass) st =
   (StillRunning, st\<lparr>ls_log := ls_log st @ concat (replicate n access_lost_events)\<rparr>)"
proof (induction n arbitrary: st)
  case 0
  show ?case by simp
next
  case (Suc n)
  have r: "it_running access_lost_pass \<noteq> 0"
    by (simp add: access_lost_pass_def)
  show ?case
    using r by (simp add: loop_body_access_lost Suc.IH)
qed

text \<open>
  Claim C7. \<^verbatim>\<open>main\<close> returns 1 with nothing but the error line when \<open>fps\<close> is below 1
  or above 60, before \<^verbatim>\<open>capture_init\<close> or \<^verbatim>\<open>vcam_open\<close>; for \<open>fps\<close> from 1 to 60 the
  first thing it does is \<^verbatim>\<open>capture_init\<close>. So 0 and 61 are rejected, 1 and 60 accepted.
\<close>

theorem fps_range_checked_first:
  "(fps < 1 \<or> 60 < fps \<longrightarrow>
      main P device fps yuv_heap its = (Some 1, [Stderr ''error: fps must be 1-60''])) \<and>
   (1 \<le> fps \<and> fps \<le> 60 \<longrightarrow>
      (\<exists>evs. snd (main P device fps yuv_heap its) = CaptureInit # evs)) \<and>
   main P device 0 yuv_heap its = (Some 1, [Stderr ''error: fps must be 1-60'']) \<and>
   main P device 61 yuv_heap its = (Some 1, [Stderr ''error: fps must be 1-60'']) \<and>
   (\<exists>evs. snd (main P device 1 yuv_heap its) = CaptureInit # evs) \<and>
   (\<exists>evs. snd (main P device 60 yuv_heap its) = CaptureInit # evs)"
proof -
  have log0: "\<exists>evs. ls_log (snd (main_loop P cam w h ys f fns its st)) = ls_log st @ evs"
    for cam w h ys f fns and st :: "'a loop_state"
  proof (induction its arbitrary: st)
    case Nil
    show ?case by simp
  next
    case (Cons it its)
    have b: "\<exists>evs. ls_log (snd (loop_body P cam w h ys f fns it st)) = ls_log st @ evs"
      by (auto simp: loop_body_def Let_def split: prod.splits option.splits)
    show ?case
    proof (cases "loop_body P cam w h ys f fns it st")
      case (Pair e st')
      with b obtain evs where e: "ls_log st' = ls_log st @ evs" by auto
      show ?thesis
      proof (cases e)
        case None
        from Cons.IH [of st'] obtain evs' where
          "ls_log (snd (main_loop P cam w h ys f fns its st')) = ls_log st' @ evs'" by blast
        with Pair None e show ?thesis by simp
      next
        case (Some x)
        with Pair e show ?thesis by simp
      qed
    qed
  qed
  have rej: "main P device f yuv_heap its = (Some 1, [Stderr ''error: fps must be 1-60''])"
    if "f < 1 \<or> 60 < f" for f
    using that by (auto simp: main_def)
  have acc: "\<exists>evs. snd (main P device f yuv_heap its) = CaptureInit # evs"
    if a: "1 \<le> f \<and> f \<le> 60" for f
  proof (cases "p_capture_init P")
    case None
    with a show ?thesis by (simp add: main_def)
  next
    case (Some cap)
    show ?thesis
    proof (cases "p_vcam_open P device (p_capture_width P cap) (p_capture_height P cap)")
      case None
      with a Some show ?thesis by (simp add: main_def Let_def)
    next
      case cam: (Some cam)
      show ?thesis
      proof (cases yuv_heap)
        case None
        with a Some cam show ?thesis by (simp add: main_def Let_def)
      next
        case heap: (Some heap)
        define st0 where "st0 = \<lparr>ls_cap = cap, ls_frames = 0,
            ls_yuv_buf = malloc_block heap (frame_size_of (p_capture_width P cap) (p_capture_height P cap)),
            ls_out = [],
            ls_log = [CaptureInit, VcamOpen device (p_capture_width P cap) (p_capture_height P cap),
                      Banner (p_capture_width P cap) (p_capture_height P cap) f device,
                      Stderr ''screen2cam: press Ctrl+C to stop'']\<rparr>"
        from log0 [of cam "p_capture_width P cap" "p_capture_height P cap"
            "frame_size_of (p_capture_width P cap) (p_capture_height P cap)" f
            "1000000000 div f" st0]
        obtain evs where evs: "ls_log (snd (main_loop P cam (p_capture_width P cap)
            (p_capture_height P cap) (frame_size_of (p_capture_width P cap) (p_capture_height P cap))
            f (1000000000 div f) its st0)) = ls_log st0 @ evs"
          by blast
        have "ls_log st0 @ evs = CaptureInit # tl (ls_log st0) @ evs"
          by (simp add: st0_def)
        with evs a Some cam heap show ?thesis
          by (auto simp: main_def Let_def st0_def [symmetric] split: prod.splits)
      qed
    qed
  qed
  show ?thesis
    apply (intro conjI impI)
         apply (erule rej)
        apply (erule acc)
       apply (rule rej, simp)
      apply (rule rej, simp)
     apply (rule acc, simp)
    apply (rule acc, simp)
    done
qed

text \<open>The theorem for the Linux program at \<open>fps = 0\<close> and \<open>fps = 60\<close>.\<close>

theorem fps_range_checked_first_witness:
  "((0::int) < 1 \<or> (60::int) < 0) \<and>
   main (linux_platform None True 3 0) ''/dev/video10'' 0 None [] =
     (Some 1, [Stderr ''error: fps must be 1-60'']) \<and>
   ((1::int) \<le> 60 \<and> (60::int) \<le> 60) \<and>
   (\<exists>evs. snd (main (linux_platform None True 3 0) ''/dev/video10'' 60 None []) = CaptureInit # evs)"
proof -
  note t = fps_range_checked_first [where P = "linux_platform None True 3 0"
      and device = "''/dev/video10''" and yuv_heap = None and its = "[]"]
  have a: "(0::int) < 1 \<or> (60::int) < 0" by simp
  have b: "(1::int) \<le> 60 \<and> (60::int) \<le> 60" by simp
  from t [where fps = 0, THEN conjunct1, rule_format, OF a]
    t [where fps = 60, THEN conjunct2, THEN conjunct1, rule_format, OF b] a b
  show ?thesis by blast
qed
lemma loop_body_paced:
  assumes "p_capture_grab P (ls_cap st) (it_grab it) = (Some frame, cap', errs)"
    and "bgra_to_yuv420p frame (ls_yuv_buf st) w h = Some yuv"
    and "p_vcam_write P cam yuv yuv_size (it_write it) (ls_out st) = (Some rv, out', rest)"
    and "0 \<le> rv"
    and "0 < p_long_bits P"
    and "in_long (p_long_bits P) (clock_diff_ns (it_t0 it) (it_t1 it))"
    and "in_long (p_long_bits P) (frame_ns - clock_diff_ns (it_t0 it) (it_t1 it))"
  shows "\<exists>st' evs. loop_body P cam w h yuv_size fps frame_ns it st = (None, st') \<and>
      ls_log st' = ls_log st @ evs \<and>
      nanosleeps evs =
        (if clock_diff_ns (it_t0 it) (it_t1 it) < frame_ns
         then [frame_ns - clock_diff_ns (it_t0 it) (it_t1 it)] else []) \<and>
      sum_list (nanosleeps evs) = max 0 (frame_ns - clock_diff_ns (it_t0 it) (it_t1 it))"
proof -
  define progress where
    "progress = (if (ls_frames st + 1) mod nat fps = 0 then [Progress (ls_frames st + 1)] else [])"
  define evs where
    "evs = [CaptureGrab] @ map Stderr errs @ [VcamWrite] @ progress @
       pace (p_long_bits P) frame_ns (it_t0 it) (it_t1 it)"
  define st' where
    "st' = st\<lparr>ls_cap := cap', ls_frames := ls_frames st + 1, ls_yuv_buf := yuv, ls_out := out',
              ls_log := ls_log st @ evs\<rparr>"
  have body: "loop_body P cam w h yuv_size fps frame_ns it st = (None, st')"
    using assms(1-4) by (simp add: loop_body_def Let_def st'_def evs_def progress_def)
  have p: "nanosleeps progress = []"
    by (simp add: progress_def)
  have n: "nanosleeps evs =
        (if clock_diff_ns (it_t0 it) (it_t1 it) < frame_ns
         then [frame_ns - clock_diff_ns (it_t0 it) (it_t1 it)] else [])"
    by (simp add: evs_def p nanosleeps_pace [OF assms(5-7)])
  have l: "ls_log st' = ls_log st @ evs"
    by (simp add: st'_def)
  show ?thesis
    apply (rule exI [of _ st'], rule exI [of _ evs])
    apply (intro conjI)
       apply (rule body)
      apply (rule l)
     apply (rule n)
    apply (simp add: n)
    done
qed

lemma sample_yuv:
  "bgra_to_yuv420p sample_2x2 [0, 0, 0, 0, 0, 0] 2 2 = Some [35, 99, 144, 107, 122, 133]"
  by code_simp

lemma init_desktop_2x2: "capture_init init_2x2 = Some desktop_2x2"
  by (simp add: capture_init_def init_2x2_def desktop_2x2_def FAILED_def size_t_of_int_def
      malloc_block_def zero_heap_def Let_def upt_rec)

lemma grab_frame_2x2:
  "capture_grab desktop_2x2 frame_2x2_env =
     (Some sample_2x2, desktop_2x2\<lparr>cw_buffer := sample_2x2\<rparr>, [])"
  by (simp add: capture_grab_def desktop_2x2_def frame_2x2_env_def DXGI_ERROR_WAIT_TIMEOUT_def
      DXGI_ERROR_ACCESS_LOST_def FAILED_def size_t_of_int_def memcpy_def Let_def upt_rec
      sample_2x2_def)

lemma write_frame_win_2x2:
  "vcam_write_win cam_win_2x2 [35, 99, 144, 107, 122, 133] 6 [Wrote 6] [] =
     (Some 0, [35, 99, 144, 107, 122, 133], [])"
  by (simp add: vcam_write_win_def cam_win_2x2_def write_loop_win.simps)

lemma pace_stalled:
  "pace 32 66666666 \<lparr>tv_sec = 10, tv_nsec = 0\<rparr> \<lparr>tv_sec = 13, tv_nsec = 0\<rparr> =
     [Nanosleep 0 1361633962]"
  by (simp add: pace_def elapsed_ns_def to_long_def)

lemma loop_body_stalled:
  "loop_body (windows_platform init_2x2 True 1 0 0) cam_win_2x2 2 2 6 15 66666666 stalled_pass
     \<lparr>ls_cap = desktop_2x2, ls_frames = 0, ls_yuv_buf = [0, 0, 0, 0, 0, 0], ls_out = [],
      ls_log = evs\<rparr> =
   (None, \<lparr>ls_cap = desktop_2x2\<lparr>cw_buffer := sample_2x2\<rparr>, ls_frames = 1,
            ls_yuv_buf = [35, 99, 144, 107, 122, 133], ls_out = [35, 99, 144, 107, 122, 133],
            ls_log = evs @ [CaptureGrab, VcamWrite, Nanosleep 0 1361633962]\<rparr>)"
  by (simp add: loop_body_def windows_platform_def stalled_pass_def grab_frame_2x2 sample_yuv
      write_frame_win_2x2 pace_stalled)

text \<open>
  Claim C8, at the input where the code departs from it. In the Windows program
  \<^verbatim>\<open>long\<close> has 32 bits. At 15 frames per second (66666666 ns a frame) a pass whose
  clock readings are 3 s apart computes \<open>elapsed = 3000000000\<close> in \<^verbatim>\<open>long\<close>, which is
  \<open>-1294967296\<close>, and \<open>remaining = 1361633962 > 0\<close>: the elapsed time is far above the
  frame interval and yet \<^verbatim>\<open>nanosleep\<close> is called, for 1.36 s. (Where the values fit
  \<^verbatim>\<open>long\<close> the pacing step is as claimed: \<open>loop_body_paced\<close>.)
\<close>

theorem pacing_sleep_overflows_long:
  "main (windows_platform init_2x2 True 1 0 0) ''-'' 15 (Some zero_heap) [stalled_pass] =
     (None, [CaptureInit, VcamOpen ''-'' 2 2, Banner 2 2 15 ''-'',
             Stderr ''screen2cam: press Ctrl+C to stop'',
             CaptureGrab, VcamWrite, Nanosleep 0 1361633962]) \<and>
   clock_diff_ns (it_t0 stalled_pass) (it_t1 stalled_pass) = 3000000000 \<and>
   1000000000 div 15 \<le> clock_diff_ns (it_t0 stalled_pass) (it_t1 stalled_pass) \<and>
   max 0 (1000000000 div 15 - clock_diff_ns (it_t0 stalled_pass) (it_t1 stalled_pass)) = 0"
proof -
  have r: "it_running stalled_pass \<noteq> 0"
    by (simp add: stalled_pass_def)
  have fs: "frame_size_of 2 2 = 6"
    by (simp add: frame_size_of_def size_t_of_int_def)
  have mb: "malloc_block zero_heap 6 = [0, 0, 0, 0, 0, 0]"
    by (simp add: malloc_block_def zero_heap_def upt_rec)
  have wh: "capture_width desktop_2x2 = 2" "capture_height desktop_2x2 = 2"
    by (simp_all add: capture_width_def capture_height_def desktop_2x2_def)
  have m: "main (windows_platform init_2x2 True 1 0 0) ''-'' 15 (Some zero_heap) [stalled_pass] =
     (None, [CaptureInit, VcamOpen ''-'' 2 2, Banner 2 2 15 ''-'',
             Stderr ''screen2cam: press Ctrl+C to stop'',
             CaptureGrab, VcamWrite, Nanosleep 0 1361633962])"
    using r loop_body_stalled [of "[CaptureInit, VcamOpen ''-'' 2 2, Banner 2 2 15 ''-'',
             Stderr ''screen2cam: press Ctrl+C to stop'']"]
    by (simp add: main_def windows_platform_def [where ienv = init_2x2] init_desktop_2x2 wh
        open_cam_win_2x2 fs mb Let_def)
  have d: "clock_diff_ns (it_t0 stalled_pass) (it_t1 stalled_pass) = 3000000000"
    by (simp add: clock_diff_ns_def stalled_pass_def)
  from m d show ?thesis by simp
qed

end
